theory Spec2Isabelle
  imports Complex_Main "HOL-Library.AList"
begin

section \<open>FairMind: room sessions, broadcast and vote convergence\<close>

text \<open>
  A shallow embedding of the server side of FairMind: the persistence layer
  (\<^verbatim>\<open>DbStorage\<close> over the tables of \<^verbatim>\<open>shared/schema.ts\<close>), the in-memory
  connection registry and the WebSocket handlers, the rate limiter of
  \<^verbatim>\<open>middleware/auth.ts\<close>, the resolution generator of \<^verbatim>\<open>services/aiClient.ts\<close> and the
  HTTP route handlers of \<^verbatim>\<open>server/routes.ts\<close>.

  Every handler is a function from the server state to the new state and the reply: what
  the handler does when it runs from start to end with no other handler in between. The
  vote handler and the join-by-code handler are given a second time as the steps between
  their awaits, with the server as a pool of suspended handlers, so that requests overlap.
  What the environment supplies (the clock, the keys that \<^verbatim>\<open>gen_random_uuid()\<close> draws,
  the answers of the text-generation endpoint, \<^verbatim>\<open>JSON.parse\<close>, the database driver) is an
  argument.
\<close>

subsection \<open>Rows of the tables\<close>

text \<open>
  Keys are \<^verbatim>\<open>varchar\<close>, so strings; timestamps are natural numbers; a nullable column
  is an option. Of a user only the key and the display name are read by the modelled
  handlers.
\<close>

record user =
  user_id :: string
  user_name :: string

record room =
  room_id :: string
  code :: string
  createdBy :: string
  participant1Id :: "string option"
  participant2Id :: "string option"
  status :: string
  resolvedAt :: "nat option"
  createdAt :: nat

record message =
  message_id :: string
  message_roomId :: string
  senderId :: string
  message_text :: "string option"
  transcript :: "string option"
  isVoice :: bool
  voiceUrl :: "string option"
  message_timestamp :: nat

record resolution =
  resolution_id :: string
  resolution_roomId :: string
  title :: string
  description :: string
  aiScore :: int
  suggestedBest :: bool
  generatedAt :: nat

record vote =
  vote_id :: string
  vote_roomId :: string
  resolutionId :: string
  userId :: string
  vote_timestamp :: nat

subsection \<open>Events of the real-time channel\<close>

text \<open>
  \<^verbatim>\<open>WSMessage\<close> of the schema, and the \<^verbatim>\<open>{type: 'error', message}\<close> object that the
  join handshake sends. \<^verbatim>\<open>room_resolved\<close> carries what \<^verbatim>\<open>getResolutionById\<close> returned,
  which may be \<^verbatim>\<open>undefined\<close>.
\<close>

datatype ws_event =
    ErrorEvent string
  | JoinRoom string string string
  | LeaveRoom string string
  | NewMessage message string
  | UserJoined string string
  | UserLeft string
  | ResolutionsGenerated "resolution list"
  | VoteCast string string
  | RoomResolved "resolution option"

text \<open>
  The \<^verbatim>\<open>readyState\<close> of a socket. A socket handed to the server's \<^verbatim>\<open>connection\<close> event
  is already open, so \<^verbatim>\<open>CONNECTING\<close> does not occur.
\<close>

datatype ready_state = OPEN | CLOSING | CLOSED

record client =
  ws :: nat
  userName :: string

record limit_entry =
  count :: nat
  resetDate :: nat

subsection \<open>What a handler can throw, and what it replies\<close>

text \<open>
  An \<^verbatim>\<open>Error\<close> with its message, a \<^verbatim>\<open>TypeError\<close> of the engine, the errors of the database
  with the column or constraint they name, the query builder's refusal of an empty list of
  values, and a validation error of the body.
\<close>

datatype thrown =
    Error string
  | TypeError
  | ForeignKeyViolation string
  | UniqueViolation string
  | NotNullViolation string
  | ValueTooLong string
  | InvalidTextRepresentation string
  | NumericValueOutOfRange string
  | CharacterNotInRepertoire string
  | NoValues
  | ZodError

text \<open>
  \<open>Json x\<close> is \<^verbatim>\<open>res.json(x)\<close>; \<open>Status c m\<close> is \<^verbatim>\<open>res.status(c).json({message: m})\<close>;
  \<open>Caught c e\<close> is the reply of a route's \<^verbatim>\<open>catch\<close> block,
  \<^verbatim>\<open>res.status(c).json({message: e.message})\<close>.
\<close>

datatype 'a reply = Json 'a | Status nat string | Caught nat thrown

subsection \<open>The server state\<close>

text \<open>
  The five tables, the module-level maps \<^verbatim>\<open>roomConnections\<close> and \<^verbatim>\<open>resolutionCounts\<close>
  (JavaScript \<^verbatim>\<open>Map\<close>s keep insertion order, so association lists), the state of every
  socket and the log of what has been written to the sockets, oldest first.
\<close>

record state =
  users :: "user list"
  rooms :: "room list"
  messages :: "message list"
  resolutions :: "resolution list"
  votes :: "vote list"
  roomConnections :: "(string \<times> (string \<times> client) list) list"
  resolutionCounts :: "(string \<times> limit_entry) list"
  readyState :: "nat \<Rightarrow> ready_state"
  sent :: "(nat \<times> ws_event) list"

subsection \<open>DbStorage\<close>

text \<open>JavaScript's \<^verbatim>\<open>!x\<close> on a nullable string: \<^verbatim>\<open>null\<close> and the empty string are falsy.\<close>

definition falsy :: "string option \<Rightarrow> bool" where
  "falsy x = (case x of None \<Rightarrow> True | Some v \<Rightarrow> v = [])"

definition getUserById :: "state \<Rightarrow> string \<Rightarrow> user option" where
  "getUserById s i = find (\<lambda>u. user_id u = i) (users s)"

definition getRoomById :: "state \<Rightarrow> string \<Rightarrow> room option" where
  "getRoomById s i = find (\<lambda>r. room_id r = i) (rooms s)"

definition getRoomByCode :: "state \<Rightarrow> string \<Rightarrow> room option" where
  "getRoomByCode s c = find (\<lambda>r. code r = c) (rooms s)"

text \<open>
  The constraints of the schema that an insert or update can violate: primary keys and
  \<^verbatim>\<open>rooms.code\<close> are unique, \<^verbatim>\<open>rooms.code\<close> is a \<^verbatim>\<open>varchar(6)\<close>, and every
  \<^verbatim>\<open>references\<close> column must name an existing row.
\<close>

definition user_exists :: "state \<Rightarrow> string \<Rightarrow> bool" where
  "user_exists s i = (i \<in> set (map user_id (users s)))"

definition room_exists :: "state \<Rightarrow> string \<Rightarrow> bool" where
  "room_exists s i = (i \<in> set (map room_id (rooms s)))"

definition resolution_exists :: "state \<Rightarrow> string \<Rightarrow> bool" where
  "resolution_exists s i = (i \<in> set (map resolution_id (resolutions s)))"

definition ref_ok :: "state \<Rightarrow> string option \<Rightarrow> bool" where
  "ref_ok s x = (case x of None \<Rightarrow> True | Some i \<Rightarrow> user_exists s i)"

definition createRoom ::
  "state \<Rightarrow> nat \<Rightarrow> string \<Rightarrow> string \<Rightarrow> string \<Rightarrow> string option \<Rightarrow> string option \<Rightarrow> string
    \<Rightarrow> thrown + state \<times> room" where
  "createRoom s now newId c creator p1 p2 st =
     (if length c > 6 then Inl (ValueTooLong ''rooms.code'')
      else if room_exists s newId then Inl (UniqueViolation ''rooms.id'')
      else if c \<in> set (map code (rooms s)) then Inl (UniqueViolation ''rooms.code'')
      else if \<not> user_exists s creator then Inl (ForeignKeyViolation ''rooms.created_by'')
      else if \<not> ref_ok s p1 then Inl (ForeignKeyViolation ''rooms.participant1_id'')
      else if \<not> ref_ok s p2 then Inl (ForeignKeyViolation ''rooms.participant2_id'')
      else
        let r = \<lparr>room_id = newId, code = c, createdBy = creator, participant1Id = p1,
                 participant2Id = p2, status = st, resolvedAt = None, createdAt = now\<rparr>
        in Inr (s\<lparr>rooms := rooms s @ [r]\<rparr>, r))"

text \<open>\<^verbatim>\<open>db.update(rooms).set(...).where(eq(rooms.id, roomId))\<close>\<close>

definition update_rooms :: "state \<Rightarrow> string \<Rightarrow> (room \<Rightarrow> room) \<Rightarrow> state" where
  "update_rooms s roomId f =
     s\<lparr>rooms := map (\<lambda>r. if room_id r = roomId then f r else r) (rooms s)\<rparr>"

definition updateRoomParticipant :: "state \<Rightarrow> string \<Rightarrow> string \<Rightarrow> thrown + state" where
  "updateRoomParticipant s roomId participantId =
     (case getRoomById s roomId of
        None \<Rightarrow> Inl (Error ''Room not found'')
      | Some r \<Rightarrow>
          if falsy (participant1Id r) then
            (if user_exists s participantId
             then Inr (update_rooms s roomId (\<lambda>r. r\<lparr>participant1Id := Some participantId\<rparr>))
             else Inl (ForeignKeyViolation ''rooms.participant1_id''))
          else if falsy (participant2Id r) \<and> participant1Id r \<noteq> Some participantId then
            (if user_exists s participantId
             then Inr (update_rooms s roomId (\<lambda>r. r\<lparr>participant2Id := Some participantId\<rparr>))
             else Inl (ForeignKeyViolation ''rooms.participant2_id''))
          else Inr s)"

definition updateRoomStatus :: "state \<Rightarrow> string \<Rightarrow> string \<Rightarrow> nat option \<Rightarrow> state" where
  "updateRoomStatus s roomId st resolved =
     update_rooms s roomId (\<lambda>r. r\<lparr>status := st, resolvedAt := resolved\<rparr>)"

definition createMessage ::
  "state \<Rightarrow> nat \<Rightarrow> string \<Rightarrow> string \<Rightarrow> string \<Rightarrow> string option \<Rightarrow> string option \<Rightarrow> bool
    \<Rightarrow> string option \<Rightarrow> thrown + state \<times> message" where
  "createMessage s now newId roomId sender txt tr voice url =
     (if newId \<in> set (map message_id (messages s)) then Inl (UniqueViolation ''messages.id'')
      else if \<not> room_exists s roomId then Inl (ForeignKeyViolation ''messages.room_id'')
      else if \<not> user_exists s sender then Inl (ForeignKeyViolation ''messages.sender_id'')
      else
        let m = \<lparr>message_id = newId, message_roomId = roomId, senderId = sender,
                 message_text = txt, transcript = tr, isVoice = voice, voiceUrl = url,
                 message_timestamp = now\<rparr>
        in Inr (s\<lparr>messages := messages s @ [m]\<rparr>, m))"

text \<open>\<^verbatim>\<open>select ... where room_id = roomId order by timestamp\<close>\<close>

definition getRoomMessages :: "state \<Rightarrow> string \<Rightarrow> message list" where
  "getRoomMessages s roomId =
     sort_key message_timestamp (filter (\<lambda>m. message_roomId m = roomId) (messages s))"

definition getResolutionById :: "state \<Rightarrow> string \<Rightarrow> resolution option" where
  "getResolutionById s i = find (\<lambda>r. resolution_id r = i) (resolutions s)"

definition createVote ::
  "state \<Rightarrow> nat \<Rightarrow> string \<Rightarrow> string \<Rightarrow> string \<Rightarrow> string \<Rightarrow> thrown + state \<times> vote" where
  "createVote s now newId roomId resId voter =
     (if newId \<in> set (map vote_id (votes s)) then Inl (UniqueViolation ''votes.id'')
      else if \<not> room_exists s roomId then Inl (ForeignKeyViolation ''votes.room_id'')
      else if \<not> resolution_exists s resId then Inl (ForeignKeyViolation ''votes.resolution_id'')
      else if \<not> user_exists s voter then Inl (ForeignKeyViolation ''votes.user_id'')
      else
        let v = \<lparr>vote_id = newId, vote_roomId = roomId, resolutionId = resId, userId = voter,
                 vote_timestamp = now\<rparr>
        in Inr (s\<lparr>votes := votes s @ [v]\<rparr>, v))"

definition getRoomVotes :: "state \<Rightarrow> string \<Rightarrow> vote list" where
  "getRoomVotes s roomId = filter (\<lambda>v. vote_roomId v = roomId) (votes s)"

definition getUserVote :: "state \<Rightarrow> string \<Rightarrow> string \<Rightarrow> vote option" where
  "getUserVote s roomId voter =
     find (\<lambda>v. vote_roomId v = roomId \<and> userId v = voter) (votes s)"

subsection \<open>Broadcast and the membership guard\<close>

text \<open>
  \<^verbatim>\<open>broadcastToRoom(roomId, message, excludeUserId?)\<close>: one \<^verbatim>\<open>send\<close> for every client of
  the room, in the order of the inner map, whose key is not the excluded one and whose
  socket is open.
\<close>

definition deliveries ::
  "state \<Rightarrow> (string \<times> client) list \<Rightarrow> ws_event \<Rightarrow> string option \<Rightarrow> (nat \<times> ws_event) list" where
  "deliveries s roomClients ev excludeUserId =
     map (\<lambda>(uid, c). (ws c, ev))
       (filter (\<lambda>(uid, c). Some uid \<noteq> excludeUserId \<and> readyState s (ws c) = OPEN) roomClients)"

definition broadcastToRoom :: "state \<Rightarrow> string \<Rightarrow> ws_event \<Rightarrow> string option \<Rightarrow> state" where
  "broadcastToRoom s roomId ev excludeUserId =
     (case map_of (roomConnections s) roomId of
        None \<Rightarrow> s
      | Some roomClients \<Rightarrow> s\<lparr>sent := sent s @ deliveries s roomClients ev excludeUserId\<rparr>)"

definition ensureRoomMember :: "state \<Rightarrow> string \<Rightarrow> string \<Rightarrow> bool" where
  "ensureRoomMember s roomId uid =
     (case getRoomById s roomId of
        None \<Rightarrow> False
      | Some r \<Rightarrow> createdBy r = uid \<or> participant1Id r = Some uid \<or> participant2Id r = Some uid)"

subsection \<open>Voting\<close>

text \<open>
  \<^verbatim>\<open>POST /api/rooms/:id/vote\<close>. \<open>now\<close> is the table's \<^verbatim>\<open>defaultNow()\<close> and \<open>newId\<close> its
  \<^verbatim>\<open>gen_random_uuid()\<close> for the inserted vote; \<open>date\<close> is the handler's \<^verbatim>\<open>new Date()\<close>.
\<close>

definition vote_route ::
  "state \<Rightarrow> nat \<Rightarrow> string \<Rightarrow> nat \<Rightarrow> string \<Rightarrow> string \<Rightarrow> string \<Rightarrow> state \<times> vote reply" where
  "vote_route s now newId date uid roomId resId =
     (if \<not> ensureRoomMember s roomId uid then (s, Status 403 ''Access denied'')
      else
        case getUserVote s roomId uid of
          Some existingVote \<Rightarrow> (s, Status 400 ''Already voted'')
        | None \<Rightarrow>
            (case createVote s now newId roomId resId uid of
               Inl e \<Rightarrow> (s, Caught 500 e)
             | Inr (s1, v) \<Rightarrow>
                 let s2 = broadcastToRoom s1 roomId (VoteCast uid resId) None;
                     allVotes = getRoomVotes s2 roomId
                 in
                   if length allVotes = 2 then
                     (let resolution1 = resolutionId (allVotes ! 0);
                          resolution2 = resolutionId (allVotes ! 1)
                      in
                        if resolution1 = resolution2 then
                          (let s3 = updateRoomStatus s2 roomId ''resolved'' (Some date);
                               res = getResolutionById s3 resId;
                               s4 = broadcastToRoom s3 roomId (RoomResolved res) None
                           in (s4, Json v))
                        else (s2, Json v))
                   else (s2, Json v)))"

subsection \<open>The other room routes\<close>

text \<open>
  \<^verbatim>\<open>POST /api/rooms\<close>. \<open>c\<close> is \<^verbatim>\<open>nanoid(6).toUpperCase()\<close>. The creator takes slot 1.
\<close>

definition create_room_route ::
  "state \<Rightarrow> nat \<Rightarrow> string \<Rightarrow> string \<Rightarrow> string \<Rightarrow> state \<times> room reply" where
  "create_room_route s now newId c uid =
     (case createRoom s now newId c uid (Some uid) None ''active'' of
        Inl e \<Rightarrow> (s, Caught 500 e)
      | Inr (s1, r) \<Rightarrow> (s1, Json r))"

text \<open>\<^verbatim>\<open>POST /api/rooms/join\<close>. The reply is the room as read before the update.\<close>

definition join_room_route :: "state \<Rightarrow> string \<Rightarrow> string \<Rightarrow> state \<times> room reply" where
  "join_room_route s uid c =
     (case getRoomByCode s c of
        None \<Rightarrow> (s, Status 404 ''Room not found'')
      | Some r \<Rightarrow>
          (case updateRoomParticipant s (room_id r) uid of
             Inl e \<Rightarrow> (s, Caught 500 e)
           | Inr s1 \<Rightarrow> (s1, Json r)))"

text \<open>\<^verbatim>\<open>GET /api/rooms/:id\<close>\<close>

definition get_room_route :: "state \<Rightarrow> string \<Rightarrow> string \<Rightarrow> state \<times> room reply" where
  "get_room_route s uid roomId =
     (if \<not> ensureRoomMember s roomId uid then (s, Status 403 ''Access denied'')
      else
        case getRoomById s roomId of
          None \<Rightarrow> (s, Status 404 ''Room not found'')
        | Some r \<Rightarrow> (s, Json r))"

subsection \<open>Messages\<close>

text \<open>
  The body of \<^verbatim>\<open>POST /api/rooms/:id/messages\<close>, at the fields \<^verbatim>\<open>insertMessageSchema\<close>
  keeps. The schema rejects a text longer than 5000 characters; \<^verbatim>\<open>isVoice\<close> defaults to
  false in the table. This route's \<^verbatim>\<open>catch\<close> replies 400.
\<close>

record message_body =
  body_text :: "string option"
  body_transcript :: "string option"
  body_isVoice :: "bool option"
  body_voiceUrl :: "string option"

definition insertMessageSchema_ok :: "message_body \<Rightarrow> bool" where
  "insertMessageSchema_ok b = (case body_text b of None \<Rightarrow> True | Some t \<Rightarrow> length t \<le> 5000)"

text \<open>\<^verbatim>\<open>user?.name || 'User'\<close>\<close>

definition senderName :: "state \<Rightarrow> string \<Rightarrow> string" where
  "senderName s uid =
     (case getUserById s uid of
        None \<Rightarrow> ''User''
      | Some u \<Rightarrow> if user_name u = [] then ''User'' else user_name u)"

definition post_message_route ::
  "state \<Rightarrow> nat \<Rightarrow> string \<Rightarrow> string \<Rightarrow> string \<Rightarrow> message_body \<Rightarrow> state \<times> message reply" where
  "post_message_route s now newId uid roomId b =
     (if \<not> ensureRoomMember s roomId uid then (s, Status 403 ''Access denied'')
      else if \<not> insertMessageSchema_ok b then (s, Caught 400 ZodError)
      else
        case createMessage s now newId roomId uid (body_text b) (body_transcript b)
               (case body_isVoice b of None \<Rightarrow> False | Some v \<Rightarrow> v) (body_voiceUrl b) of
          Inl e \<Rightarrow> (s, Caught 400 e)
        | Inr (s1, m) \<Rightarrow>
            (broadcastToRoom s1 roomId (NewMessage m (senderName s1 uid)) None, Json m))"

text \<open>\<^verbatim>\<open>GET /api/rooms/:id/messages\<close>\<close>

definition get_messages_route ::
  "state \<Rightarrow> string \<Rightarrow> string \<Rightarrow> state \<times> (message \<times> string) list reply" where
  "get_messages_route s uid roomId =
     (if \<not> ensureRoomMember s roomId uid then (s, Status 403 ''Access denied'')
      else (s, Json (map (\<lambda>m. (m, senderName s (senderId m))) (getRoomMessages s roomId))))"

text \<open>
  \<^verbatim>\<open>POST /api/transcribe\<close>. The missing audio file is checked before the membership.
\<close>

definition transcribe_route ::
  "state \<Rightarrow> nat \<Rightarrow> string \<Rightarrow> string \<Rightarrow> string \<Rightarrow> bool \<Rightarrow> state \<times> message reply" where
  "transcribe_route s now newId uid roomId audioFile =
     (if \<not> audioFile then (s, Status 400 ''No audio file provided'')
      else if \<not> ensureRoomMember s roomId uid then (s, Status 403 ''Access denied'')
      else
        case createMessage s now newId roomId uid (Some [])
               (Some ''Voice message (transcription unavailable)'') True
               (Some ''/audio/placeholder.webm'') of
          Inl e \<Rightarrow> (s, Caught 500 e)
        | Inr (s1, m) \<Rightarrow>
            (broadcastToRoom s1 roomId (NewMessage m (senderName s1 uid)) None, Json m))"

subsection \<open>The daily limit on resolution requests\<close>

text \<open>
  \<^verbatim>\<open>checkResolutionLimit\<close> and \<^verbatim>\<open>incrementResolutionCount\<close> of \<^verbatim>\<open>middleware/auth.ts\<close>.
  \<open>today\<close> is the local midnight the function computes from the clock.
\<close>

record limit_result =
  allowed :: bool
  remaining :: nat

definition checkResolutionLimit :: "state \<Rightarrow> nat \<Rightarrow> string \<Rightarrow> limit_result \<times> state" where
  "checkResolutionLimit s today uid =
     (let fresh = (\<lparr>allowed = True, remaining = 3\<rparr>,
                   s\<lparr>resolutionCounts :=
                       AList.update uid \<lparr>count = 0, resetDate = today\<rparr> (resolutionCounts s)\<rparr>)
      in
        case map_of (resolutionCounts s) uid of
          None \<Rightarrow> fresh
        | Some userLimit \<Rightarrow>
            if resetDate userLimit < today then fresh
            else if count userLimit \<ge> 3 then (\<lparr>allowed = False, remaining = 0\<rparr>, s)
            else (\<lparr>allowed = True, remaining = 3 - count userLimit\<rparr>, s))"

definition incrementResolutionCount :: "state \<Rightarrow> nat \<Rightarrow> string \<Rightarrow> state" where
  "incrementResolutionCount s now uid =
     (case map_of (resolutionCounts s) uid of
        Some userLimit \<Rightarrow>
          s\<lparr>resolutionCounts :=
              AList.update uid (userLimit\<lparr>count := count userLimit + 1\<rparr>) (resolutionCounts s)\<rparr>
      | None \<Rightarrow>
          s\<lparr>resolutionCounts :=
              AList.update uid \<lparr>count = 1, resetDate = now\<rparr> (resolutionCounts s)\<rparr>)"

subsection \<open>The resolution generator\<close>

text \<open>
  A value as \<^verbatim>\<open>JSON.parse\<close> builds it. A number is a double: the rational it stands for, or
  an infinity when the literal is beyond the range of doubles (\<open>JInfinity True\<close> is the
  positive one). The keys of an object are pairwise different.
\<close>

datatype json =
    JNull
  | JBool bool
  | JNumber rat
  | JInfinity bool
  | JString string
  | JArray "json list"
  | JObject "(string \<times> json) list"

text \<open>
  \<^verbatim>\<open>r.k\<close> for a value \<open>r\<close> other than \<^verbatim>\<open>null\<close> and a name \<open>k\<close> that strings, numbers, booleans and
  arrays do not have of their own (the names the route reads are of this kind); \<open>None\<close> is
  \<^verbatim>\<open>undefined\<close>.
\<close>

definition property :: "json \<Rightarrow> string \<Rightarrow> json option" where
  "property r k = (case r of JObject kvs \<Rightarrow> map_of kvs k | _ \<Rightarrow> None)"

text \<open>One call of \<^verbatim>\<open>hf.textGeneration\<close>: the model, the prompt and the parameters.\<close>

record hf_call =
  model :: string
  inputs :: string
  max_new_tokens :: nat
  temperature :: real
  top_p :: "real option"
  return_full_text :: "bool option"

text \<open>
  The collaborators of the generation route that are not in the sources. \<open>hf\<close> is \<open>None\<close>
  when no API key is configured (the client is \<^verbatim>\<open>null\<close>); otherwise it answers a call with
  \<open>None\<close> when the call throws or its answer has no \<^verbatim>\<open>generated_text\<close>, and with the
  generated text otherwise. \<open>JSON_parse\<close> is \<^verbatim>\<open>JSON.parse\<close>; \<open>None\<close> when it throws.
  \<open>driver_text\<close> is the text that the database driver sends for a parameter that is not a
  string, and \<open>int4in\<close> is how the database reads a text as a value of type
  \<^verbatim>\<open>integer\<close>.
\<close>

record ai_env =
  hf :: "(hf_call \<Rightarrow> string option) option"
  JSON_parse :: "string \<Rightarrow> json option"
  driver_text :: "json \<Rightarrow> string"
  int4in :: "string \<Rightarrow> thrown + int"

definition newline :: char where
  "newline = CHR 0x0A"

text \<open>\<^verbatim>\<open>messages.join('\n')\<close>\<close>

fun join_lines :: "string list \<Rightarrow> string" where
  "join_lines [] = []"
| "join_lines [x] = x"
| "join_lines (x # y # zs) = x @ newline # join_lines (y # zs)"

definition promptHead :: "string list" where
  "promptHead =
     [''You are a professional mediator analyzing a dispute between two people. Based on their conversation, generate EXACTLY 3 resolution options.'',
      '''',
      ''Conversation:'']"

definition promptTail :: "string list" where
  "promptTail =
     ['''',
      ''Generate a JSON response with exactly this structure (no extra text, just valid JSON):'',
      ''{'',
      ''  \"resolutions\": ['',
      ''    {'',
      ''      \"id\": \"1\",'',
      ''      \"title\": \"Short title\",'',
      ''      \"description\": \"Detailed description of the resolution\",'',
      ''      \"ai_score\": 85,'',
      ''      \"suggested_best\": 1'',
      ''    },'',
      ''    {'',
      ''      \"id\": \"2\",'',
      ''      \"title\": \"Short title\",'',
      ''      \"description\": \"Detailed description of the resolution\",'',
      ''      \"ai_score\": 75,'',
      ''      \"suggested_best\": 0'',
      ''    },'',
      ''    {'',
      ''      \"id\": \"3\",'',
      ''      \"title\": \"Short title\",'',
      ''      \"description\": \"Detailed description of the resolution\",'',
      ''      \"ai_score\": 65,'',
      ''      \"suggested_best\": 0'',
      ''    }'',
      ''  ]'',
      ''}'',
      '''',
      ''Guidelines:'',
      ''- ai_score: confidence level 0-100'',
      ''- suggested_best: 1 for the best option, 0 for others'',
      ''- Make resolutions balanced, fair, and actionable'',
      ''- Consider both perspectives equally'',
      '''',
      ''Respond with ONLY valid JSON, no additional text:'']"

definition buildResolutionPrompt :: "string \<Rightarrow> string" where
  "buildResolutionPrompt conversation = join_lines (promptHead @ [conversation] @ promptTail)"

text \<open>The object literal that \<^verbatim>\<open>generateFallbackResolutions\<close> returns.\<close>

definition generateFallbackResolutions :: json where
  "generateFallbackResolutions =
     JObject
       [(''resolutions'',
         JArray
           [JObject
              [(''id'', JString ''1''),
               (''title'', JString ''Compromise Solution''),
               (''description'', JString ''Both parties meet in the middle by making equal concessions to reach a balanced agreement that addresses core concerns.''),
               (''ai_score'', JNumber 80),
               (''suggested_best'', JNumber 1)],
            JObject
              [(''id'', JString ''2''),
               (''title'', JString ''Time-Based Trial''),
               (''description'', JString ''Implement one approach for a defined trial period, then evaluate and adjust based on results before committing long-term.''),
               (''ai_score'', JNumber 70),
               (''suggested_best'', JNumber 0)],
            JObject
              [(''id'', JString ''3''),
               (''title'', JString ''Alternative Perspective''),
               (''description'', JString ''Explore a third option that neither party initially considered, potentially solving the underlying issue differently.''),
               (''ai_score'', JNumber 65),
               (''suggested_best'', JNumber 0)]])]"

text \<open>
  \<^verbatim>\<open>text.match(/\{[\s\S]*\}/)\<close>: from the first opening brace to the last closing brace
  after it; no match when no closing brace follows an opening one.
\<close>

definition jsonMatch :: "string \<Rightarrow> string option" where
  "jsonMatch txt =
     (let t = dropWhile (\<lambda>c. c \<noteq> CHR ''{'') txt
      in if CHR ''}'' \<in> set t
         then Some (rev (dropWhile (\<lambda>c. c \<noteq> CHR ''}'') (rev t)))
         else None)"

definition first_call :: "string \<Rightarrow> hf_call" where
  "first_call prompt =
     \<lparr>model = ''mistralai/Mistral-7B-Instruct-v0.2'', inputs = prompt, max_new_tokens = 800,
      temperature = 0.7, top_p = Some 0.95, return_full_text = Some False\<rparr>"

definition retry_call :: "string \<Rightarrow> hf_call" where
  "retry_call prompt =
     \<lparr>model = ''mistralai/Mistral-7B-Instruct-v0.2'', inputs = prompt, max_new_tokens = 600,
      temperature = 0.5, top_p = None, return_full_text = None\<rparr>"

text \<open>
  The body of the \<^verbatim>\<open>catch\<close> block of \<^verbatim>\<open>generateResolutions\<close>: one more call; whatever goes
  wrong in it is logged and the fallback is returned.
\<close>

definition retry_once ::
  "(hf_call \<Rightarrow> string option) \<Rightarrow> (string \<Rightarrow> json option) \<Rightarrow> string \<Rightarrow> json" where
  "retry_once textGeneration parse prompt =
     (case textGeneration (retry_call prompt) of
        None \<Rightarrow> generateFallbackResolutions
      | Some generated_text \<Rightarrow>
          (case jsonMatch generated_text of
             None \<Rightarrow> generateFallbackResolutions
           | Some m \<Rightarrow>
               (case parse m of
                  None \<Rightarrow> generateFallbackResolutions
                | Some parsed \<Rightarrow> parsed)))"

text \<open>
  \<^verbatim>\<open>generateResolutions(messages)\<close>, with the calls it made to the endpoint, in order. What
  was parsed is returned as it is.
\<close>

definition generateResolutions ::
  "ai_env \<Rightarrow> string list \<Rightarrow> hf_call list \<times> (thrown + json)" where
  "generateResolutions env msgs =
     (case hf env of
        None \<Rightarrow> ([], Inl (Error ''Hugging Face API key not configured''))
      | Some textGeneration \<Rightarrow>
          let conversationText = join_lines msgs;
              prompt = buildResolutionPrompt conversationText
          in
            case textGeneration (first_call prompt) of
              None \<Rightarrow>
                ([first_call prompt, retry_call prompt],
                 Inr (retry_once textGeneration (JSON_parse env) prompt))
            | Some generatedText \<Rightarrow>
                (case jsonMatch generatedText of
                   None \<Rightarrow> ([first_call prompt], Inr generateFallbackResolutions)
                 | Some m \<Rightarrow>
                     (case JSON_parse env m of
                        None \<Rightarrow>
                          ([first_call prompt, retry_call prompt],
                           Inr (retry_once textGeneration (JSON_parse env) prompt))
                      | Some parsed \<Rightarrow> ([first_call prompt], Inr parsed))))"

text \<open>
  An element of \<^verbatim>\<open>resolutionsToInsert\<close>: the room, and what the candidate has under
  \<^verbatim>\<open>title\<close>, \<^verbatim>\<open>description\<close> and \<^verbatim>\<open>ai_score\<close>, whatever it is.
\<close>

record insert_resolution =
  ins_roomId :: string
  ins_title :: "json option"
  ins_description :: "json option"
  ins_aiScore :: "json option"
  ins_suggestedBest :: bool

text \<open>
  \<^verbatim>\<open>aiResponse.resolutions.map((r) => ({...}))\<close>. Reading a property of \<^verbatim>\<open>null\<close> throws, and so
  does calling \<^verbatim>\<open>map\<close> on anything but an array.
\<close>

definition resolutionsToInsert :: "string \<Rightarrow> json \<Rightarrow> thrown + insert_resolution list" where
  "resolutionsToInsert roomId aiResponse =
     (case property aiResponse ''resolutions'' of
        Some (JArray rs) \<Rightarrow>
          if JNull \<in> set rs then Inl TypeError
          else
            Inr (map (\<lambda>r. \<lparr>ins_roomId = roomId, ins_title = property r ''title'',
                            ins_description = property r ''description'',
                            ins_aiScore = property r ''ai_score'',
                            ins_suggestedBest = (property r ''suggested_best'' = Some (JNumber 1))\<rparr>)
                   rs)
      | _ \<Rightarrow> Inl TypeError)"

text \<open>
  The parameter of a \<^verbatim>\<open>text\<close> column. \<^verbatim>\<open>undefined\<close> becomes the column's default, which is
  \<^verbatim>\<open>NULL\<close> here, as \<^verbatim>\<open>null\<close> is. A text cannot hold the character with code 0.
\<close>

definition text_value :: "ai_env \<Rightarrow> string \<Rightarrow> json option \<Rightarrow> thrown + string option" where
  "text_value env col v =
     (case v of
        None \<Rightarrow> Inr None
      | Some JNull \<Rightarrow> Inr None
      | Some x \<Rightarrow>
          let t = (case x of JString str \<Rightarrow> str | _ \<Rightarrow> driver_text env x)
          in if CHR 0x00 \<in> set t then Inl (CharacterNotInRepertoire col) else Inr (Some t))"

text \<open>
  The parameter of an \<^verbatim>\<open>integer\<close> column, of 32 bits. A number is sent in decimal
  notation, from \<^verbatim>\<open>1e21\<close> on with an exponent; the text of a boolean, an array or an object
  is no integer.
\<close>

definition integer_value :: "ai_env \<Rightarrow> string \<Rightarrow> json option \<Rightarrow> thrown + int option" where
  "integer_value env col v =
     (case v of
        None \<Rightarrow> Inr None
      | Some JNull \<Rightarrow> Inr None
      | Some (JNumber q) \<Rightarrow>
          if of_int \<lfloor>q\<rfloor> \<noteq> q \<or> 10 ^ 21 \<le> \<bar>q\<bar> then Inl (InvalidTextRepresentation col)
          else if \<lfloor>q\<rfloor> < - 2147483648 \<or> 2147483647 < \<lfloor>q\<rfloor> then Inl (NumericValueOutOfRange col)
          else Inr (Some \<lfloor>q\<rfloor>)
      | Some (JString t) \<Rightarrow> (case int4in env t of Inl e \<Rightarrow> Inl e | Inr i \<Rightarrow> Inr (Some i))
      | Some x \<Rightarrow> Inl (InvalidTextRepresentation col))"

text \<open>The values of one row as the database has read them.\<close>

record resolution_values =
  val_roomId :: string
  val_title :: "string option"
  val_description :: "string option"
  val_aiScore :: "int option"
  val_suggestedBest :: bool

definition bind_values :: "ai_env \<Rightarrow> insert_resolution \<Rightarrow> thrown + resolution_values" where
  "bind_values env r =
     (case text_value env ''resolutions.title'' (ins_title r) of
        Inl e \<Rightarrow> Inl e
      | Inr t \<Rightarrow>
          (case text_value env ''resolutions.description'' (ins_description r) of
             Inl e \<Rightarrow> Inl e
           | Inr d \<Rightarrow>
               (case integer_value env ''resolutions.ai_score'' (ins_aiScore r) of
                  Inl e \<Rightarrow> Inl e
                | Inr n \<Rightarrow>
                    Inr \<lparr>val_roomId = ins_roomId r, val_title = t, val_description = d,
                         val_aiScore = n, val_suggestedBest = ins_suggestedBest r\<rparr>)))"

text \<open>All the results, or the first error.\<close>

fun all_or_first :: "(thrown + 'a) list \<Rightarrow> thrown + 'a list" where
  "all_or_first [] = Inr []"
| "all_or_first (x # xs) =
     (case x of
        Inl e \<Rightarrow> Inl e
      | Inr v \<Rightarrow> (case all_or_first xs of Inl e \<Rightarrow> Inl e | Inr vs \<Rightarrow> Inr (v # vs)))"

text \<open>
  The rows are inserted one after the other: the columns \<^verbatim>\<open>title\<close>, \<^verbatim>\<open>description\<close> and
  \<^verbatim>\<open>ai_score\<close> are \<^verbatim>\<open>NOT NULL\<close>, and the key must be new. \<open>keys\<close> are the keys in the table.
\<close>

fun insert_rows ::
  "nat \<Rightarrow> string list \<Rightarrow> (string \<times> resolution_values) list \<Rightarrow> thrown + resolution list" where
  "insert_rows now keys [] = Inr []"
| "insert_rows now keys ((i, v) # rest) =
     (case val_title v of
        None \<Rightarrow> Inl (NotNullViolation ''resolutions.title'')
      | Some t \<Rightarrow>
          (case val_description v of
             None \<Rightarrow> Inl (NotNullViolation ''resolutions.description'')
           | Some d \<Rightarrow>
               (case val_aiScore v of
                  None \<Rightarrow> Inl (NotNullViolation ''resolutions.ai_score'')
                | Some n \<Rightarrow>
                    if i \<in> set keys then Inl (UniqueViolation ''resolutions.id'')
                    else
                      (case insert_rows now (i # keys) rest of
                         Inl e \<Rightarrow> Inl e
                       | Inr created \<Rightarrow>
                           Inr (\<lparr>resolution_id = i, resolution_roomId = val_roomId v,
                                 title = t, description = d, aiScore = n,
                                 suggestedBest = val_suggestedBest v, generatedAt = now\<rparr>
                                # created)))))"

text \<open>
  \<^verbatim>\<open>db.insert(resolutions).values(list).returning()\<close>. The query builder throws on an
  empty list of values. The database reads the parameters, inserts the rows and then
  checks the foreign key; an error leaves the table as it was. \<open>newIds k\<close> is the key drawn
  for the \<open>k\<close>-th row.
\<close>

definition createResolutions ::
  "ai_env \<Rightarrow> state \<Rightarrow> nat \<Rightarrow> (nat \<Rightarrow> string) \<Rightarrow> insert_resolution list
    \<Rightarrow> thrown + state \<times> resolution list" where
  "createResolutions env s now newIds resolutionList =
     (if resolutionList = [] then Inl NoValues
      else
        case all_or_first (map (bind_values env) resolutionList) of
          Inl e \<Rightarrow> Inl e
        | Inr vals \<Rightarrow>
            (case insert_rows now (map resolution_id (resolutions s))
                    (zip (map newIds [0..<length vals]) vals) of
               Inl e \<Rightarrow> Inl e
             | Inr created \<Rightarrow>
                 if list_ex (\<lambda>r. \<not> room_exists s (resolution_roomId r)) created
                 then Inl (ForeignKeyViolation ''resolutions.room_id'')
                 else Inr (s\<lparr>resolutions := resolutions s @ created\<rparr>, created)))"

text \<open>\<^verbatim>\<open>m.text || m.transcript || ''\<close>\<close>

definition message_or_transcript :: "message \<Rightarrow> string" where
  "message_or_transcript m =
     (if \<not> falsy (message_text m) then the (message_text m)
      else if \<not> falsy (transcript m) then the (transcript m)
      else [])"

text \<open>
  \<^verbatim>\<open>POST /api/rooms/:id/generate-resolutions\<close>. The third component is the list of calls
  made to the text-generation endpoint while the request was served.
\<close>

definition generate_resolutions_route ::
  "ai_env \<Rightarrow> state \<Rightarrow> nat \<Rightarrow> nat \<Rightarrow> (nat \<Rightarrow> string) \<Rightarrow> string \<Rightarrow> string
    \<Rightarrow> state \<times> resolution list reply \<times> hf_call list" where
  "generate_resolutions_route env s now today newIds uid roomId =
     (if \<not> ensureRoomMember s roomId uid then (s, Status 403 ''Access denied'', [])
      else
        let (limit, s1) = checkResolutionLimit s today uid in
          if \<not> allowed limit then
            (s1, Status 429
               ''Daily resolution limit reached. Upgrade to PRO for unlimited resolutions.'', [])
          else
            let msgs = getRoomMessages s1 roomId in
              if length msgs < 4 then
                (s1, Status 400 ''Need at least 4 messages to generate resolutions'', [])
              else
                let messageTexts = map message_or_transcript msgs;
                    (calls, generated) = generateResolutions env messageTexts
                in
                  case generated of
                    Inl e \<Rightarrow> (s1, Caught 500 e, calls)
                  | Inr aiResponse \<Rightarrow>
                      (case resolutionsToInsert roomId aiResponse of
                         Inl e \<Rightarrow> (s1, Caught 500 e, calls)
                       | Inr toInsert \<Rightarrow>
                           (case createResolutions env s1 now newIds toInsert of
                              Inl e \<Rightarrow> (s1, Caught 500 e, calls)
                            | Inr (s2, savedResolutions) \<Rightarrow>
                                let s3 = incrementResolutionCount s2 now uid;
                                    s4 = broadcastToRoom s3 roomId
                                           (ResolutionsGenerated savedResolutions) None
                                in (s4, Json savedResolutions, calls))))"

subsection \<open>The WebSocket handlers\<close>

text \<open>
  What the \<^verbatim>\<open>connection\<close> callback closes over: the socket, the identity that
  \<^verbatim>\<open>verifyClient\<close> took from the token, and the variable \<^verbatim>\<open>currentRoomId\<close>.
\<close>

record connection =
  conn_ws :: nat
  authenticatedUserId :: string
  currentRoomId :: "string option"

text \<open>
  \<^verbatim>\<open>ws.send\<close> writes to an open socket; on a socket that is closing or closed nothing is
  written. \<^verbatim>\<open>ws.close()\<close> starts the closing handshake of an open socket and does nothing
  to one that is closing or closed.
\<close>

definition ws_send :: "state \<Rightarrow> nat \<Rightarrow> ws_event \<Rightarrow> state" where
  "ws_send s w ev = (if readyState s w = OPEN then s\<lparr>sent := sent s @ [(w, ev)]\<rparr> else s)"

definition ws_close :: "state \<Rightarrow> nat \<Rightarrow> state" where
  "ws_close s w =
     (if readyState s w = OPEN then s\<lparr>readyState := (readyState s)(w := CLOSING)\<rparr> else s)"

text \<open>The three refusals of \<^verbatim>\<open>join_room\<close>: an error event, then \<^verbatim>\<open>ws.close()\<close>.\<close>

definition refuse :: "connection \<Rightarrow> state \<Rightarrow> string \<Rightarrow> connection \<times> state" where
  "refuse c s m = (c, ws_close (ws_send s (conn_ws c) (ErrorEvent m)) (conn_ws c))"

definition join_room ::
  "connection \<Rightarrow> state \<Rightarrow> string \<Rightarrow> string \<Rightarrow> string \<Rightarrow> connection \<times> state" where
  "join_room c s requestedRoomId requestedUserId name =
     (if requestedUserId \<noteq> authenticatedUserId c then refuse c s ''User ID mismatch''
      else
        case getRoomById s requestedRoomId of
          None \<Rightarrow> refuse c s ''Room not found''
        | Some r \<Rightarrow>
            let isParticipant =
                  (createdBy r = authenticatedUserId c \<or>
                   participant1Id r = Some (authenticatedUserId c) \<or>
                   participant2Id r = Some (authenticatedUserId c))
            in
              if \<not> isParticipant then refuse c s ''Access denied''
              else
                let conns = (if map_of (roomConnections s) requestedRoomId = None
                             then AList.update requestedRoomId [] (roomConnections s)
                             else roomConnections s);
                    roomClients =
                      AList.update (authenticatedUserId c) \<lparr>ws = conn_ws c, userName = name\<rparr>
                        (case map_of conns requestedRoomId of None \<Rightarrow> [] | Some cl \<Rightarrow> cl)
                in
                  (c\<lparr>currentRoomId := Some requestedRoomId\<rparr>,
                   s\<lparr>roomConnections := AList.update requestedRoomId roomClients conns,
                      sent := sent s @
                        deliveries s roomClients (UserJoined (authenticatedUserId c) name)
                          (Some (authenticatedUserId c))\<rparr>))"

text \<open>
  The \<^verbatim>\<open>leave_room\<close> case. It reads the connection's \<^verbatim>\<open>currentRoomId\<close> and authenticated
  identity, not the fields of the message, and leaves \<^verbatim>\<open>currentRoomId\<close> as it is.
\<close>

definition leave_room :: "connection \<Rightarrow> state \<Rightarrow> state" where
  "leave_room c s =
     (if falsy (currentRoomId c) \<or> authenticatedUserId c = [] then s
      else
        case map_of (roomConnections s) (the (currentRoomId c)) of
          None \<Rightarrow> s
        | Some roomClients \<Rightarrow>
            let remaining = AList.delete (authenticatedUserId c) roomClients;
                s1 = s\<lparr>roomConnections :=
                          AList.update (the (currentRoomId c)) remaining (roomConnections s),
                        sent := sent s @
                          deliveries s remaining (UserLeft (authenticatedUserId c)) None\<rparr>
            in
              if remaining = []
              then s1\<lparr>roomConnections :=
                         AList.delete (the (currentRoomId c)) (roomConnections s1)\<rparr>
              else s1)"

text \<open>\<^verbatim>\<open>ws.on('message', ...)\<close>: only \<^verbatim>\<open>join_room\<close> and \<^verbatim>\<open>leave_room\<close> have a case.\<close>

definition on_message :: "connection \<Rightarrow> state \<Rightarrow> ws_event \<Rightarrow> connection \<times> state" where
  "on_message c s msg =
     (case msg of
        JoinRoom roomId uid name \<Rightarrow> join_room c s roomId uid name
      | LeaveRoom roomId uid \<Rightarrow> (c, leave_room c s)
      | _ \<Rightarrow> (c, s))"

text \<open>\<^verbatim>\<open>ws.on('close', ...)\<close>: the same steps as \<^verbatim>\<open>leave_room\<close>, written out again.\<close>

definition on_close :: "connection \<Rightarrow> state \<Rightarrow> state" where
  "on_close c s =
     (if falsy (currentRoomId c) \<or> authenticatedUserId c = [] then s
      else
        case map_of (roomConnections s) (the (currentRoomId c)) of
          None \<Rightarrow> s
        | Some roomClients \<Rightarrow>
            let remaining = AList.delete (authenticatedUserId c) roomClients;
                s1 = s\<lparr>roomConnections :=
                          AList.update (the (currentRoomId c)) remaining (roomConnections s),
                        sent := sent s @
                          deliveries s remaining (UserLeft (authenticatedUserId c)) None\<rparr>
            in
              if remaining = []
              then s1\<lparr>roomConnections :=
                         AList.delete (the (currentRoomId c)) (roomConnections s1)\<rparr>
              else s1)"

subsection \<open>The server as a whole\<close>

text \<open>
  One request or socket event, with what the environment supplies for it. A socket
  event names the connection it arrives on. \<open>handle\<close> is the state after the handler of
  the request has run from start to end, no other handler running in between.
\<close>

datatype request =
    CreateRoom nat string string string
  | JoinByCode string string
  | GetRoom string string
  | PostMessage nat string string string message_body
  | GetMessages string string
  | Transcribe nat string string string bool
  | GenerateResolutions ai_env nat nat "nat \<Rightarrow> string" string string
  | Vote nat string nat string string string
  | SocketMessage connection ws_event
  | SocketClosed connection

fun handle :: "state \<Rightarrow> request \<Rightarrow> state" where
  "handle s (CreateRoom now newId c uid) = fst (create_room_route s now newId c uid)"
| "handle s (JoinByCode uid c) = fst (join_room_route s uid c)"
| "handle s (GetRoom uid roomId) = fst (get_room_route s uid roomId)"
| "handle s (PostMessage now newId uid roomId b) = fst (post_message_route s now newId uid roomId b)"
| "handle s (GetMessages uid roomId) = fst (get_messages_route s uid roomId)"
| "handle s (Transcribe now newId uid roomId audioFile) =
     fst (transcribe_route s now newId uid roomId audioFile)"
| "handle s (GenerateResolutions env now today newIds uid roomId) =
     fst (generate_resolutions_route env s now today newIds uid roomId)"
| "handle s (Vote now newId date uid roomId resId) =
     fst (vote_route s now newId date uid roomId resId)"
| "handle s (SocketMessage c msg) = snd (on_message c s msg)"
| "handle s (SocketClosed c) =
     on_close c (s\<lparr>readyState := (readyState s)(conn_ws c := CLOSED)\<rparr>)"

text \<open>The states a sequence of requests goes through when each is served to its end
  before the next, the starting state first.\<close>

fun trace :: "state \<Rightarrow> request list \<Rightarrow> state list" where
  "trace s [] = [s]"
| "trace s (q # qs) = s # trace (handle s q) qs"

subsection \<open>Overlapping requests\<close>

text \<open>
  The handlers are \<^verbatim>\<open>async\<close> functions. At an \<^verbatim>\<open>await\<close> a handler is suspended until its
  query has been answered, and the handlers of other requests run in between. The vote
  handler and the join-by-code handler write a table that they have read before, so they
  are cut at their awaits: a step is one query together with the synchronous code that
  follows it, up to the next query. A stage names the query that a suspended handler makes
  next, with what the handler holds in its variables.
\<close>

datatype vote_stage =
    VoteLookup
  | VoteInsert
  | VoteCount vote
  | VoteResolve vote
  | VoteFetch vote

datatype join_stage =
    JoinRead room
  | JoinWrite1 room
  | JoinWrite2 room

text \<open>
  A request in the server: one that has arrived and whose handler has not made its first
  query, a vote handler at a stage, with the arguments of the request, or a join-by-code
  handler at a stage, with the identity of the caller.
\<close>

datatype task =
    Arrived request
  | Voting vote_stage nat string nat string string string
  | Joining join_stage string

text \<open>
  The two updates of \<^verbatim>\<open>updateRoomParticipant\<close>,
  \<^verbatim>\<open>db.update(rooms).set({participant1Id: participantId}).where(eq(rooms.id, roomId))\<close>
  and the same for \<^verbatim>\<open>participant2Id\<close>. The foreign key is checked when a row is updated.
\<close>

definition setParticipant1 :: "state \<Rightarrow> string \<Rightarrow> string \<Rightarrow> thrown + state" where
  "setParticipant1 s roomId participantId =
     (if room_exists s roomId \<and> \<not> user_exists s participantId
      then Inl (ForeignKeyViolation ''rooms.participant1_id'')
      else Inr (update_rooms s roomId (\<lambda>r. r\<lparr>participant1Id := Some participantId\<rparr>)))"

definition setParticipant2 :: "state \<Rightarrow> string \<Rightarrow> string \<Rightarrow> thrown + state" where
  "setParticipant2 s roomId participantId =
     (if room_exists s roomId \<and> \<not> user_exists s participantId
      then Inl (ForeignKeyViolation ''rooms.participant2_id'')
      else Inr (update_rooms s roomId (\<lambda>r. r\<lparr>participant2Id := Some participantId\<rparr>)))"

text \<open>The status of a reply, and the status that the handler of a request replies with
  when it runs from start to end; a socket event has no reply.\<close>

definition status_code :: "'a reply \<Rightarrow> nat" where
  "status_code r = (case r of Json x \<Rightarrow> 200 | Status c m \<Rightarrow> c | Caught c e \<Rightarrow> c)"

fun reply_code :: "state \<Rightarrow> request \<Rightarrow> nat option" where
  "reply_code s (CreateRoom now newId c uid) =
     Some (status_code (snd (create_room_route s now newId c uid)))"
| "reply_code s (JoinByCode uid c) = Some (status_code (snd (join_room_route s uid c)))"
| "reply_code s (GetRoom uid roomId) = Some (status_code (snd (get_room_route s uid roomId)))"
| "reply_code s (PostMessage now newId uid roomId b) =
     Some (status_code (snd (post_message_route s now newId uid roomId b)))"
| "reply_code s (GetMessages uid roomId) =
     Some (status_code (snd (get_messages_route s uid roomId)))"
| "reply_code s (Transcribe now newId uid roomId audioFile) =
     Some (status_code (snd (transcribe_route s now newId uid roomId audioFile)))"
| "reply_code s (GenerateResolutions env now today newIds uid roomId) =
     Some (status_code (fst (snd (generate_resolutions_route env s now today newIds uid roomId))))"
| "reply_code s (Vote now newId date uid roomId resId) =
     Some (status_code (snd (vote_route s now newId date uid roomId resId)))"
| "reply_code s (SocketMessage c msg) = None"
| "reply_code s (SocketClosed c) = None"

text \<open>
  One step of a request: the new state, and either the stage at which the handler is
  suspended again or the status of its reply. The steps of a vote are those of
  \<^verbatim>\<open>POST /api/rooms/:id/vote\<close>: the membership, the vote of the caller, the insert and
  \<^verbatim>\<open>vote_cast\<close>, the votes of the room, the new status of the room, the resolution and
  \<^verbatim>\<open>room_resolved\<close>. The steps of a join are those of \<^verbatim>\<open>POST /api/rooms/join\<close> and
  \<^verbatim>\<open>updateRoomParticipant\<close>: the room of the code, the room of that key, and the update
  chosen from what was read. The handler of any other request makes no query whose result
  decides a later write to the votes or to the slots of a room; it is run as
  one step.
\<close>

datatype progress = Next task | Done "nat option"

fun step :: "state \<Rightarrow> task \<Rightarrow> state \<times> progress" where
  "step s (Arrived (Vote now newId date uid roomId resId)) =
     (if \<not> ensureRoomMember s roomId uid then (s, Done (Some 403))
      else (s, Next (Voting VoteLookup now newId date uid roomId resId)))"
| "step s (Arrived (JoinByCode uid c)) =
     (case getRoomByCode s c of
        None \<Rightarrow> (s, Done (Some 404))
      | Some room \<Rightarrow> (s, Next (Joining (JoinRead room) uid)))"
| "step s (Arrived q) = (handle s q, Done (reply_code s q))"
| "step s (Voting VoteLookup now newId date uid roomId resId) =
     (case getUserVote s roomId uid of
        Some existingVote \<Rightarrow> (s, Done (Some 400))
      | None \<Rightarrow> (s, Next (Voting VoteInsert now newId date uid roomId resId)))"
| "step s (Voting VoteInsert now newId date uid roomId resId) =
     (case createVote s now newId roomId resId uid of
        Inl e \<Rightarrow> (s, Done (Some 500))
      | Inr (s1, v) \<Rightarrow>
          (broadcastToRoom s1 roomId (VoteCast uid resId) None,
           Next (Voting (VoteCount v) now newId date uid roomId resId)))"
| "step s (Voting (VoteCount v) now newId date uid roomId resId) =
     (let allVotes = getRoomVotes s roomId in
        if length allVotes = 2 \<and> resolutionId (allVotes ! 0) = resolutionId (allVotes ! 1)
        then (s, Next (Voting (VoteResolve v) now newId date uid roomId resId))
        else (s, Done (Some 200)))"
| "step s (Voting (VoteResolve v) now newId date uid roomId resId) =
     (updateRoomStatus s roomId ''resolved'' (Some date),
      Next (Voting (VoteFetch v) now newId date uid roomId resId))"
| "step s (Voting (VoteFetch v) now newId date uid roomId resId) =
     (broadcastToRoom s roomId (RoomResolved (getResolutionById s resId)) None, Done (Some 200))"
| "step s (Joining (JoinRead room) uid) =
     (case getRoomById s (room_id room) of
        None \<Rightarrow> (s, Done (Some 500))
      | Some r \<Rightarrow>
          if falsy (participant1Id r) then (s, Next (Joining (JoinWrite1 room) uid))
          else if falsy (participant2Id r) \<and> participant1Id r \<noteq> Some uid
            then (s, Next (Joining (JoinWrite2 room) uid))
          else (s, Done (Some 200)))"
| "step s (Joining (JoinWrite1 room) uid) =
     (case setParticipant1 s (room_id room) uid of
        Inl e \<Rightarrow> (s, Done (Some 500))
      | Inr s1 \<Rightarrow> (s1, Done (Some 200)))"
| "step s (Joining (JoinWrite2 room) uid) =
     (case setParticipant2 s (room_id room) uid of
        Inl e \<Rightarrow> (s, Done (Some 500))
      | Inr s1 \<Rightarrow> (s1, Done (Some 200)))"

text \<open>
  The server and the requests in it. A request arrives, or the request at a position is
  taken one step further; one that has replied leaves.
\<close>

datatype event = Request request | Resume nat

fun fire :: "state \<times> task list \<Rightarrow> event \<Rightarrow> state \<times> task list" where
  "fire (s, pool) (Request q) = (s, pool @ [Arrived q])"
| "fire (s, pool) (Resume k) =
     (if k < length pool then
        (case step s (pool ! k) of
           (s1, Next t) \<Rightarrow> (s1, pool[k := t])
         | (s1, Done c) \<Rightarrow> (s1, take k pool @ drop (Suc k) pool))
      else (s, pool))"

text \<open>What a sequence of events goes through, the start first.\<close>

fun run :: "state \<times> task list \<Rightarrow> event list \<Rightarrow> (state \<times> task list) list" where
  "run c [] = [c]"
| "run c (e # es) = c # run (fire c e) es"

subsection \<open>Predicates on states used by the properties\<close>

text \<open>No identity has two votes in one room.\<close>

definition one_vote_each :: "state \<Rightarrow> bool" where
  "one_vote_each s = distinct (map (\<lambda>v. (vote_roomId v, userId v)) (votes s))"

text \<open>The clients registered for a room: the inner map of \<^verbatim>\<open>roomConnections\<close>, if any.\<close>

definition registered :: "state \<Rightarrow> string \<Rightarrow> (string \<times> client) list" where
  "registered s roomId =
     (case map_of (roomConnections s) roomId of None \<Rightarrow> [] | Some roomClients \<Rightarrow> roomClients)"

text \<open>
  The test of the vote handler on the votes of a room: exactly two, naming the same
  resolution.
\<close>

definition agreed :: "vote list \<Rightarrow> bool" where
  "agreed allVotes =
     (length allVotes = 2 \<and> resolutionId (allVotes ! 0) = resolutionId (allVotes ! 1))"

subsection \<open>A concrete server state\<close>

text \<open>
  Three users; room \<open>r1\<close> with code \<open>AB12CD\<close>, created by \<open>u1\<close> and joined by \<open>u2\<close>; a
  batch of three resolutions; both members connected on open sockets 1 and 2.
\<close>

definition demo_users :: "user list" where
  "demo_users = [\<lparr>user_id = ''u1'', user_name = ''Ann''\<rparr>,
                 \<lparr>user_id = ''u2'', user_name = ''Bob''\<rparr>,
                 \<lparr>user_id = ''u3'', user_name = ''Cy''\<rparr>]"

definition demo_room :: room where
  "demo_room = \<lparr>room_id = ''r1'', code = ''AB12CD'', createdBy = ''u1'',
                 participant1Id = Some ''u1'', participant2Id = Some ''u2'',
                 status = ''active'', resolvedAt = None, createdAt = 0\<rparr>"

definition demo_resolutions :: "resolution list" where
  "demo_resolutions =
     [\<lparr>resolution_id = ''x1'', resolution_roomId = ''r1'', title = ''Compromise Solution'',
       description = ''d1'', aiScore = 80, suggestedBest = True, generatedAt = 5\<rparr>,
      \<lparr>resolution_id = ''x2'', resolution_roomId = ''r1'', title = ''Time-Based Trial'',
       description = ''d2'', aiScore = 70, suggestedBest = False, generatedAt = 5\<rparr>,
      \<lparr>resolution_id = ''x3'', resolution_roomId = ''r1'', title = ''Alternative Perspective'',
       description = ''d3'', aiScore = 65, suggestedBest = False, generatedAt = 5\<rparr>]"

definition demo_vote :: "string \<Rightarrow> string \<Rightarrow> string \<Rightarrow> nat \<Rightarrow> vote" where
  "demo_vote i voter res t =
     \<lparr>vote_id = i, vote_roomId = ''r1'', resolutionId = res, userId = voter, vote_timestamp = t\<rparr>"

definition demo_state :: "vote list \<Rightarrow> state" where
  "demo_state vs =
     \<lparr>users = demo_users, rooms = [demo_room], messages = [], resolutions = demo_resolutions,
      votes = vs,
      roomConnections = [(''r1'', [(''u1'', \<lparr>ws = 1, userName = ''Ann''\<rparr>),
                                   (''u2'', \<lparr>ws = 2, userName = ''Bob''\<rparr>)])],
      resolutionCounts = [], readyState = (\<lambda>w. OPEN), sent = []\<rparr>"

text \<open>
  What one call of the endpoint yields, as the generator reads it: the call throws, the
  text has no braces to match, the matched text does not parse, or it parses.
\<close>

datatype attempt = Threw | NoJson | BadJson | Parsed json

definition attempt ::
  "(hf_call \<Rightarrow> string option) \<Rightarrow> (string \<Rightarrow> json option) \<Rightarrow> hf_call \<Rightarrow> attempt" where
  "attempt textGeneration parse call =
     (case textGeneration call of
        None \<Rightarrow> Threw
      | Some generated_text \<Rightarrow>
          (case jsonMatch generated_text of
             None \<Rightarrow> NoJson
           | Some m \<Rightarrow> (case parse m of None \<Rightarrow> BadJson | Some parsed \<Rightarrow> Parsed parsed)))"


subsection \<open>Notions used to state the properties of the generator\<close>

text \<open>What the route does once the three checks have passed.\<close>

definition generate_and_save ::
  "ai_env \<Rightarrow> state \<Rightarrow> nat \<Rightarrow> (nat \<Rightarrow> string) \<Rightarrow> string \<Rightarrow> string
    \<Rightarrow> state \<times> resolution list reply \<times> hf_call list" where
  "generate_and_save env s1 now newIds uid roomId =
     (let (calls, generated) =
            generateResolutions env (map message_or_transcript (getRoomMessages s1 roomId))
      in
        case generated of
          Inl e \<Rightarrow> (s1, Caught 500 e, calls)
        | Inr aiResponse \<Rightarrow>
            (case resolutionsToInsert roomId aiResponse of
               Inl e \<Rightarrow> (s1, Caught 500 e, calls)
             | Inr toInsert \<Rightarrow>
                 (case createResolutions env s1 now newIds toInsert of
                    Inl e \<Rightarrow> (s1, Caught 500 e, calls)
                  | Inr (s2, savedResolutions) \<Rightarrow>
                      (broadcastToRoom (incrementResolutionCount s2 now uid) roomId
                         (ResolutionsGenerated savedResolutions) None,
                       Json savedResolutions, calls))))"

text \<open>The candidates of an answer: the elements of its \<^verbatim>\<open>resolutions\<close>, when that is an array.\<close>

definition candidates :: "json \<Rightarrow> json list option" where
  "candidates a = (case property a ''resolutions'' of Some (JArray rs) \<Rightarrow> Some rs | _ \<Rightarrow> None)"

text \<open>The string, or the number, that a property holds, if it holds one.\<close>

definition string_of :: "json option \<Rightarrow> string option" where
  "string_of v = (case v of Some (JString t) \<Rightarrow> Some t | _ \<Rightarrow> None)"

definition number_of :: "json option \<Rightarrow> rat option" where
  "number_of v = (case v of Some (JNumber q) \<Rightarrow> Some q | _ \<Rightarrow> None)"

text \<open>
  A candidate that the table takes as it is: its title and description are strings without
  the character of code 0, and its score is a number that is an integer of 32 bits.
\<close>

definition storable :: "json \<Rightarrow> bool" where
  "storable c =
     (case string_of (property c ''title'') of
        None \<Rightarrow> False
      | Some t \<Rightarrow>
          (case string_of (property c ''description'') of
             None \<Rightarrow> False
           | Some d \<Rightarrow>
               (case number_of (property c ''ai_score'') of
                  None \<Rightarrow> False
                | Some q \<Rightarrow>
                    CHR 0x00 \<notin> set t \<and> CHR 0x00 \<notin> set d \<and> of_int \<lfloor>q\<rfloor> = q \<and>
                    - 2147483648 \<le> q \<and> q \<le> 2147483647)))"

text \<open>
  A candidate that the table cannot take: it is \<^verbatim>\<open>null\<close>, or its title, description or
  score is missing or \<^verbatim>\<open>null\<close>, or its score is a number that is no integer of 32 bits, a
  boolean, an array or an object.
\<close>

definition absent :: "json option \<Rightarrow> bool" where
  "absent v = (v = None \<or> v = Some JNull)"

definition no_integer :: "json option \<Rightarrow> bool" where
  "no_integer v =
     (case v of
        Some (JNumber q) \<Rightarrow> of_int \<lfloor>q\<rfloor> \<noteq> q \<or> q < - 2147483648 \<or> 2147483647 < q
      | Some (JInfinity b) \<Rightarrow> True
      | Some (JBool b) \<Rightarrow> True
      | Some (JArray xs) \<Rightarrow> True
      | Some (JObject kvs) \<Rightarrow> True
      | _ \<Rightarrow> False)"

definition unstorable :: "json \<Rightarrow> bool" where
  "unstorable c =
     (c = JNull \<or> absent (property c ''title'') \<or> absent (property c ''description'') \<or>
      absent (property c ''ai_score'') \<or> no_integer (property c ''ai_score''))"

text \<open>
  A row holds a candidate as received: the title and the description of the candidate, where
  they are strings, and its score, where it is a number, are those of the row, and the row
  is marked as the best exactly when the candidate has the number 1 under
  \<^verbatim>\<open>suggested_best\<close>.
\<close>

definition as_received :: "json \<Rightarrow> resolution \<Rightarrow> bool" where
  "as_received c r =
     ((case string_of (property c ''title'') of Some t \<Rightarrow> title r = t | None \<Rightarrow> True) \<and>
      (case string_of (property c ''description'') of
         Some d \<Rightarrow> description r = d
       | None \<Rightarrow> True) \<and>
      (case number_of (property c ''ai_score'') of
         Some q \<Rightarrow> of_int (aiScore r) = q
       | None \<Rightarrow> True) \<and>
      suggestedBest r = (property c ''suggested_best'' = Some (JNumber 1)))"

text \<open>A row is what the database made of an element of \<^verbatim>\<open>resolutionsToInsert\<close>.\<close>

definition saved_as :: "ai_env \<Rightarrow> nat \<Rightarrow> insert_resolution \<Rightarrow> resolution \<Rightarrow> bool" where
  "saved_as env now x r =
     (text_value env ''resolutions.title'' (ins_title x) = Inr (Some (title r)) \<and>
      text_value env ''resolutions.description'' (ins_description x) = Inr (Some (description r)) \<and>
      integer_value env ''resolutions.ai_score'' (ins_aiScore x) = Inr (Some (aiScore r)) \<and>
      resolution_roomId r = ins_roomId x \<and> suggestedBest r = ins_suggestedBest x \<and>
      generatedAt r = now)"

text \<open>
  The generator is on its fallback path when the first answer has no braces, or when the
  first call throws or its match does not parse and the second call yields nothing parsed
  either.
\<close>

definition fallback_path ::
  "(hf_call \<Rightarrow> string option) \<Rightarrow> (string \<Rightarrow> json option) \<Rightarrow> string \<Rightarrow> bool" where
  "fallback_path textGeneration parse prompt =
     (case attempt textGeneration parse (first_call prompt) of
        Parsed p \<Rightarrow> False
      | NoJson \<Rightarrow> True
      | _ \<Rightarrow> (case attempt textGeneration parse (retry_call prompt) of
                Parsed p \<Rightarrow> False
              | _ \<Rightarrow> True))"

text \<open>The prompt built from the messages of a room.\<close>

definition room_prompt :: "state \<Rightarrow> string \<Rightarrow> string" where
  "room_prompt s roomId =
     buildResolutionPrompt (join_lines (map message_or_transcript (getRoomMessages s roomId)))"

text \<open>The keys drawn for \<open>n\<close> new rows are pairwise different and not in the table.\<close>

definition fresh_ids :: "state \<Rightarrow> (nat \<Rightarrow> string) \<Rightarrow> nat \<Rightarrow> bool" where
  "fresh_ids s newIds n =
     (distinct (map newIds [0..<n]) \<and> \<not> list_ex (resolution_exists s) (map newIds [0..<n]))"

subsection \<open>Notions used to state the properties of the slots\<close>

text \<open>The two slots of a room, and the identities in them.\<close>

definition slot_pair :: "state \<Rightarrow> string \<Rightarrow> string option \<times> string option" where
  "slot_pair s roomId =
     (case getRoomById s roomId of
        None \<Rightarrow> (None, None)
      | Some r \<Rightarrow> (participant1Id r, participant2Id r))"

definition slots :: "state \<Rightarrow> string \<Rightarrow> string set" where
  "slots s roomId = set_option (fst (slot_pair s roomId)) \<union> set_option (snd (slot_pair s roomId))"

text \<open>
  Identities are keys drawn by \<^verbatim>\<open>gen_random_uuid()\<close>: no user has the empty string as
  key, and no slot holds it.
\<close>

definition ids_ok :: "state \<Rightarrow> bool" where
  "ids_ok s =
     ([] \<notin> set (map user_id (users s)) \<and>
      list_all (\<lambda>r. participant1Id r \<noteq> Some [] \<and> participant2Id r \<noteq> Some []) (rooms s))"

text \<open>The primary key of the rooms table.\<close>

definition keys_ok :: "state \<Rightarrow> bool" where
  "keys_ok s = distinct (map room_id (rooms s))"

text \<open>
  How the rooms table can differ after one request: not at all, by a new room whose creator
  holds slot 1, by an identity put into the empty slot 1 or the empty slot 2 of a room, or
  by a new status of a room.
\<close>

inductive rooms_step :: "state \<Rightarrow> state \<Rightarrow> bool" where
  same: "users s' = users s \<Longrightarrow> rooms s' = rooms s \<Longrightarrow> rooms_step s s'"
| created:
    "users s' = users s \<Longrightarrow> rooms s' = rooms s @ [r] \<Longrightarrow>
     room_id r \<notin> set (map room_id (rooms s)) \<Longrightarrow> code r \<notin> set (map code (rooms s)) \<Longrightarrow>
     user_exists s (createdBy r) \<Longrightarrow> participant1Id r = Some (createdBy r) \<Longrightarrow>
     participant2Id r = None \<Longrightarrow> rooms_step s s'"
| slot1:
    "users s' = users s \<Longrightarrow> getRoomById s roomId = Some r0 \<Longrightarrow> falsy (participant1Id r0) \<Longrightarrow>
     user_exists s pid \<Longrightarrow>
     rooms s' = map (\<lambda>r. if room_id r = roomId then r\<lparr>participant1Id := Some pid\<rparr> else r) (rooms s) \<Longrightarrow>
     rooms_step s s'"
| slot2:
    "users s' = users s \<Longrightarrow> getRoomById s roomId = Some r0 \<Longrightarrow>
     \<not> falsy (participant1Id r0) \<Longrightarrow> falsy (participant2Id r0) \<Longrightarrow>
     participant1Id r0 \<noteq> Some pid \<Longrightarrow> user_exists s pid \<Longrightarrow>
     rooms s' = map (\<lambda>r. if room_id r = roomId then r\<lparr>participant2Id := Some pid\<rparr> else r) (rooms s) \<Longrightarrow>
     rooms_step s s'"
| status:
    "users s' = users s \<Longrightarrow>
     rooms s' = map (\<lambda>r. if room_id r = roomId then r\<lparr>status := st, resolvedAt := t\<rparr> else r) (rooms s) \<Longrightarrow>
     rooms_step s s'"

text \<open>A slot that is filled stays as it is.\<close>

definition grows :: "string option \<times> string option \<Rightarrow> string option \<times> string option \<Rightarrow> bool" where
  "grows p q = ((fst p = None \<or> fst q = fst p) \<and> (snd p = None \<or> snd q = snd p))"

subsection \<open>Concrete collaborators and conversations\<close>

text \<open>
  A driver and a database for the examples: the driver's text of a value is not needed in
  them, and no string is read as an integer.
\<close>

definition no_text :: "json \<Rightarrow> string" where
  "no_text v = []"

definition no_int4 :: "string \<Rightarrow> thrown + int" where
  "no_int4 t = Inl (InvalidTextRepresentation ''integer'')"

text \<open>An endpoint that is down, one that answers in prose, and one that answers with JSON
  of two candidates, one of them scored 150 and both marked as the best.\<close>

definition env_down :: ai_env where
  "env_down = \<lparr>hf = Some (\<lambda>call. None), JSON_parse = (\<lambda>t. None),
                driver_text = no_text, int4in = no_int4\<rparr>"

definition env_prose :: ai_env where
  "env_prose = \<lparr>hf = Some (\<lambda>call. Some ''I am sorry, I cannot help with that.''),
                 JSON_parse = (\<lambda>t. None), driver_text = no_text, int4in = no_int4\<rparr>"







definition env_empty :: ai_env where
  "env_empty = \<lparr>hf = Some (\<lambda>call. Some ''{}''),
                 JSON_parse = (\<lambda>t. if t = ''{}'' then Some (JObject []) else None),
                 driver_text = no_text, int4in = no_int4\<rparr>"

definition demo_message :: "string \<Rightarrow> string \<Rightarrow> string \<Rightarrow> nat \<Rightarrow> message" where
  "demo_message i sender txt t =
     \<lparr>message_id = i, message_roomId = ''r1'', senderId = sender, message_text = Some txt,
      transcript = None, isVoice = False, voiceUrl = None, message_timestamp = t\<rparr>"

definition three_messages :: "message list" where
  "three_messages =
     [demo_message ''m1'' ''u1'' ''You never do the dishes.'' 1,
      demo_message ''m2'' ''u2'' ''I cooked all week.'' 2,
      demo_message ''m3'' ''u1'' ''Cooking is not cleaning.'' 3]"

definition four_messages :: "message list" where
  "four_messages = three_messages @ [demo_message ''m4'' ''u2'' ''Then let us split both.'' 4]"

text \<open>The room of \<open>demo_state\<close> with no resolutions yet, the given messages and counters.\<close>

definition talk_state :: "message list \<Rightarrow> (string \<times> limit_entry) list \<Rightarrow> state" where
  "talk_state ms counts =
     \<lparr>users = demo_users, rooms = [demo_room], messages = ms, resolutions = [], votes = [],
      roomConnections = [(''r1'', [(''u1'', \<lparr>ws = 1, userName = ''Ann''\<rparr>),
                                   (''u2'', \<lparr>ws = 2, userName = ''Bob''\<rparr>)])],
      resolutionCounts = counts, readyState = (\<lambda>w. OPEN), sent = []\<rparr>"

text \<open>Keys for new rows: \<open>n\<close>, \<open>ni\<close>, \<open>nii\<close>, ...\<close>

definition demo_ids :: "nat \<Rightarrow> string" where
  "demo_ids k = CHR ''n'' # replicate k CHR ''i''"



subsection \<open>Notions used to state the properties of the registry\<close>

text \<open>
  The handlers keep no empty inner map in \<^verbatim>\<open>roomConnections\<close>: an entry is created on a
  join, with the joining client in it, and removed when its last client leaves.
\<close>

definition registry_ok :: "state \<Rightarrow> bool" where
  "registry_ok s = list_all (\<lambda>(roomId, roomClients). roomClients \<noteq> []) (roomConnections s)"

text \<open>The pair of the connection's room and identity has an entry in the registry.\<close>

definition is_registered :: "connection \<Rightarrow> state \<Rightarrow> bool" where
  "is_registered c s =
     (case currentRoomId c of
        None \<Rightarrow> False
      | Some roomId \<Rightarrow> authenticatedUserId c \<in> set (map fst (registered s roomId)))"

text \<open>Connections of the concrete states: \<open>u1\<close> on socket 1, joined to \<open>r1\<close>; a new
  connection of \<open>u3\<close> on socket 3; a connection of \<open>u3\<close> that believes it is in \<open>r1\<close>.\<close>

definition conn_u1 :: connection where
  "conn_u1 = \<lparr>conn_ws = 1, authenticatedUserId = ''u1'', currentRoomId = Some ''r1''\<rparr>"

definition conn_u3 :: connection where
  "conn_u3 = \<lparr>conn_ws = 3, authenticatedUserId = ''u3'', currentRoomId = None\<rparr>"

definition conn_u3_stale :: connection where
  "conn_u3_stale = \<lparr>conn_ws = 3, authenticatedUserId = ''u3'', currentRoomId = Some ''r1''\<rparr>"

text \<open>The state of \<open>demo_state\<close> with only \<open>u1\<close> connected.\<close>

definition solo_state :: state where
  "solo_state =
     (demo_state [])\<lparr>roomConnections := [(''r1'', [(''u1'', \<lparr>ws = 1, userName = ''Ann''\<rparr>)])]\<rparr>"



definition three_joins :: "request list" where
  "three_joins =
     [JoinByCode ''u1'' ''AB12CD'', JoinByCode ''u2'' ''AB12CD'', JoinByCode ''u3'' ''AB12CD'']"

subsection \<open>Notions used to state the properties of overlapping requests\<close>

text \<open>
  The room and the identity for which a vote handler has found no vote and is about to
  insert one; no two handlers in the server are about to insert a vote for the same room
  and identity.
\<close>

definition inserting :: "task \<Rightarrow> (string \<times> string) option" where
  "inserting t =
     (case t of
        Voting VoteInsert now newId date uid roomId resId \<Rightarrow> Some (roomId, uid)
      | _ \<Rightarrow> None)"

definition one_insert_each :: "task list \<Rightarrow> bool" where
  "one_insert_each pool = distinct (List.map_filter inserting pool)"

text \<open>What a handler that is about to insert a vote has found still holds: the room has no
  vote of the identity.\<close>

definition unvoted :: "state \<Rightarrow> task \<Rightarrow> bool" where
  "unvoted s t =
     (case inserting t of
        None \<Rightarrow> True
      | Some k \<Rightarrow> k \<notin> set (map (\<lambda>v. (vote_roomId v, userId v)) (votes s)))"




text \<open>
  Two votes of \<open>u1\<close> for the same resolution, overlapping: both handlers look for a vote
  of \<open>u1\<close> before either has inserted one; the second then counts the votes of the room
  and sets its status.
\<close>

definition overlapping_votes :: "event list" where
  "overlapping_votes =
     [Request (Vote 10 ''v1'' 11 ''u1'' ''r1'' ''x1''),
      Request (Vote 20 ''v2'' 21 ''u1'' ''r1'' ''x1''),
      Resume 0, Resume 1, Resume 0, Resume 1, Resume 0, Resume 1, Resume 1, Resume 1]"



text \<open>Two votes of \<open>u1\<close>, one after the other.\<close>

definition successive_votes :: "event list" where
  "successive_votes =
     [Request (Vote 10 ''v1'' 11 ''u1'' ''r1'' ''x1''), Resume 0, Resume 0, Resume 0, Resume 0,
      Request (Vote 20 ''v2'' 21 ''u1'' ''r1'' ''x1''), Resume 0, Resume 0]"

section \<open>Properties\<close>

subsection \<open>Which fields an operation leaves alone\<close>

lemma broadcastToRoom_frame [simp]:
  "users (broadcastToRoom s r e x) = users s"
  "rooms (broadcastToRoom s r e x) = rooms s"
  "messages (broadcastToRoom s r e x) = messages s"
  "resolutions (broadcastToRoom s r e x) = resolutions s"
  "votes (broadcastToRoom s r e x) = votes s"
  "roomConnections (broadcastToRoom s r e x) = roomConnections s"
  "resolutionCounts (broadcastToRoom s r e x) = resolutionCounts s"
  "readyState (broadcastToRoom s r e x) = readyState s"
  by (simp_all add: broadcastToRoom_def split: option.splits)

lemma update_rooms_frame [simp]:
  "users (update_rooms s r f) = users s"
  "messages (update_rooms s r f) = messages s"
  "resolutions (update_rooms s r f) = resolutions s"
  "votes (update_rooms s r f) = votes s"
  "roomConnections (update_rooms s r f) = roomConnections s"
  "resolutionCounts (update_rooms s r f) = resolutionCounts s"
  "readyState (update_rooms s r f) = readyState s"
  "sent (update_rooms s r f) = sent s"
  by (simp_all add: update_rooms_def)

subsection \<open>Lookups, and the cases of the vote handler\<close>

lemma find_map_keep:
  "(\<And>x. P (f x) = P x) \<Longrightarrow> find P (map f xs) = map_option f (find P xs)"
  by (induction xs) auto



lemma find_key_is:
  "find (\<lambda>x. k x = i) xs = Some x \<Longrightarrow> k x = i"
  by (induction xs) (auto split: if_splits)

lemma broadcastToRoom_sent:
  "sent (broadcastToRoom s roomId ev x) = sent s @ deliveries s (registered s roomId) ev x"
  by (simp add: broadcastToRoom_def registered_def deliveries_def split: option.splits)


lemma createVote_Inr:
  assumes "createVote s now newId roomId resId uid = Inr (s1, v)"
  shows "s1 = s\<lparr>votes := votes s @ [v]\<rparr>"
    and "v = \<lparr>vote_id = newId, vote_roomId = roomId, resolutionId = resId, userId = uid,
              vote_timestamp = now\<rparr>"
    and "resolution_exists s resId" and "room_exists s roomId" and "user_exists s uid"
    and "newId \<notin> set (map vote_id (votes s))"
  using assms by (auto simp: createVote_def Let_def split: if_splits)

lemma vote_route_success:
  assumes "ensureRoomMember s roomId uid" "getUserVote s roomId uid = None"
    and "createVote s now newId roomId resId uid = Inr (s1, v1)"
  shows "vote_route s now newId date uid roomId resId =
     (let s2 = broadcastToRoom s1 roomId (VoteCast uid resId) None in
      if agreed (getRoomVotes s1 roomId)
      then (let s3 = updateRoomStatus s2 roomId ''resolved'' (Some date)
            in (broadcastToRoom s3 roomId (RoomResolved (getResolutionById s3 resId)) None, Json v1))
      else (s2, Json v1))"
  using assms by (simp add: vote_route_def Let_def agreed_def getRoomVotes_def)

lemma vote_route_denied:
  "\<not> ensureRoomMember s roomId uid \<Longrightarrow>
     vote_route s now newId date uid roomId resId = (s, Status 403 ''Access denied'')"
  by (simp add: vote_route_def)

lemma vote_route_voted:
  "ensureRoomMember s roomId uid \<Longrightarrow> getUserVote s roomId uid = Some x \<Longrightarrow>
     vote_route s now newId date uid roomId resId = (s, Status 400 ''Already voted'')"
  by (simp add: vote_route_def)

lemma vote_route_failed:
  "ensureRoomMember s roomId uid \<Longrightarrow> getUserVote s roomId uid = None \<Longrightarrow>
   createVote s now newId roomId resId uid = Inl e \<Longrightarrow>
     vote_route s now newId date uid roomId resId = (s, Caught 500 e)"
  by (simp add: vote_route_def)


subsection \<open>One vote per identity and room\<close>

lemma vote_route_votes:
  "votes (fst (vote_route s now newId date uid roomId resId)) = votes s \<or>
   (getUserVote s roomId uid = None \<and>
    votes (fst (vote_route s now newId date uid roomId resId)) =
      votes s @ [\<lparr>vote_id = newId, vote_roomId = roomId, resolutionId = resId, userId = uid,
                  vote_timestamp = now\<rparr>])"
  by (auto simp: vote_route_def updateRoomStatus_def Let_def createVote_def
      split: option.splits sum.splits if_splits)

lemma getUserVote_None:
  "getUserVote s roomId uid = None \<Longrightarrow>
     (roomId, uid) \<notin> set (map (\<lambda>v. (vote_roomId v, userId v)) (votes s))"
  by (auto simp: getUserVote_def find_None_iff)

lemma vote_route_one_vote_each:
  "one_vote_each s \<Longrightarrow> one_vote_each (fst (vote_route s now newId date uid roomId resId))"
  using vote_route_votes [of s now newId date uid roomId resId] getUserVote_None [of s roomId uid]
  by (auto simp: one_vote_each_def)

subsection \<open>Vote convergence\<close>




subsection \<open>Absent rooms and resolutions\<close>

lemma find_key_in:
  "find (\<lambda>x. k x = i) xs = Some x \<Longrightarrow> x \<in> set xs"
  by (induction xs) (auto split: if_splits)

lemma getRoomById_room_exists:
  "getRoomById s roomId = Some r \<Longrightarrow> room_exists s roomId"
  unfolding getRoomById_def room_exists_def
  using find_key_in [of room_id roomId "rooms s" r] find_key_is [of room_id roomId "rooms s" r]
  by auto

lemma ensureRoomMember_room_exists:
  "ensureRoomMember s roomId uid \<Longrightarrow> room_exists s roomId"
  by (auto simp: ensureRoomMember_def split: option.splits dest: getRoomById_room_exists)

lemma createVote_absent_resolution:
  assumes "room_exists s roomId" "\<not> resolution_exists s resId"
  shows "createVote s now newId roomId resId uid =
           Inl (if newId \<in> set (map vote_id (votes s)) then UniqueViolation ''votes.id''
                else ForeignKeyViolation ''votes.resolution_id'')"
  using assms by (simp add: createVote_def)

text \<open>
  C8 (as amended). Joining by a code that no room has is answered \<^verbatim>\<open>404 Room not found\<close>.
  A vote on a room that does not exist is answered \<^verbatim>\<open>403 Access denied\<close>. A vote by a
  member who has not voted, for a resolution key that no resolution has, is refused by the
  foreign key of the votes table and answered by the \<^verbatim>\<open>catch\<close> block with status 500.
  In all three cases the state is returned as it was.
\<close>

theorem vote_route_absent_entity:
  "(getRoomByCode s c = None \<longrightarrow> join_room_route s uid c = (s, Status 404 ''Room not found''))
   \<and> (getRoomById s roomId = None \<longrightarrow>
        vote_route s now newId date uid roomId resId = (s, Status 403 ''Access denied''))
   \<and> (ensureRoomMember s roomId uid \<and> getUserVote s roomId uid = None \<and>
        \<not> resolution_exists s resId \<longrightarrow>
        vote_route s now newId date uid roomId resId =
          (s, Caught 500 (if newId \<in> set (map vote_id (votes s)) then UniqueViolation ''votes.id''
                          else ForeignKeyViolation ''votes.resolution_id'')))"
proof (intro conjI impI)
  assume "getRoomByCode s c = None"
  then show "join_room_route s uid c = (s, Status 404 ''Room not found'')"
    by (simp add: join_room_route_def)
next
  assume "getRoomById s roomId = None"
  then have "\<not> ensureRoomMember s roomId uid" by (simp add: ensureRoomMember_def)
  then show "vote_route s now newId date uid roomId resId = (s, Status 403 ''Access denied'')"
    by (rule vote_route_denied)
next
  assume a: "ensureRoomMember s roomId uid \<and> getUserVote s roomId uid = None \<and>
        \<not> resolution_exists s resId"
  then have "createVote s now newId roomId resId uid =
           Inl (if newId \<in> set (map vote_id (votes s)) then UniqueViolation ''votes.id''
                else ForeignKeyViolation ''votes.resolution_id'')"
    using createVote_absent_resolution ensureRoomMember_room_exists by blast
  with a show "vote_route s now newId date uid roomId resId =
          (s, Caught 500 (if newId \<in> set (map vote_id (votes s)) then UniqueViolation ''votes.id''
                          else ForeignKeyViolation ''votes.resolution_id''))"
    using vote_route_failed by blast
qed

text \<open>
  The claim as stated fails: \<open>u1\<close>, a member of \<open>r1\<close> who has not voted, votes for the
  key \<open>x9\<close> of no resolution and gets status 500, not a not-found reply.
\<close>

theorem vote_route_absent_resolution_counterexample:
  "ensureRoomMember (demo_state []) ''r1'' ''u1''
   \<and> getResolutionById (demo_state []) ''x9'' = None
   \<and> vote_route (demo_state []) 10 ''v1'' 11 ''u1'' ''r1'' ''x9''
       = (demo_state [], Caught 500 (ForeignKeyViolation ''votes.resolution_id''))
   \<and> snd (vote_route (demo_state []) 10 ''v1'' 11 ''u1'' ''r1'' ''x9'') \<noteq> Status 404 ''Resolution not found''"
  by (simp add: vote_route_def ensureRoomMember_def getRoomById_def getUserVote_def createVote_def
      getResolutionById_def room_exists_def resolution_exists_def demo_state_def demo_room_def
      demo_resolutions_def)

theorem vote_route_absent_entity_witness:
  "getRoomByCode (demo_state []) ''ZZZZZZ'' = None
   \<and> join_room_route (demo_state []) ''u3'' ''ZZZZZZ'' = (demo_state [], Status 404 ''Room not found'')
   \<and> getRoomById (demo_state []) ''r9'' = None
   \<and> vote_route (demo_state []) 10 ''v1'' 11 ''u3'' ''r9'' ''x1'' = (demo_state [], Status 403 ''Access denied'')
   \<and> ensureRoomMember (demo_state []) ''r1'' ''u1''
   \<and> getUserVote (demo_state []) ''r1'' ''u1'' = None
   \<and> \<not> resolution_exists (demo_state []) ''x9''
   \<and> vote_route (demo_state []) 10 ''v1'' 11 ''u1'' ''r1'' ''x9''
       = (demo_state [], Caught 500 (ForeignKeyViolation ''votes.resolution_id''))"
proof -
  let ?s = "demo_state []"
  have 1: "getRoomByCode ?s ''ZZZZZZ'' = None"
    by (simp add: getRoomByCode_def demo_state_def demo_room_def)
  have 2: "getRoomById ?s ''r9'' = None"
    by (simp add: getRoomById_def demo_state_def demo_room_def)
  have 3: "ensureRoomMember ?s ''r1'' ''u1''"
    by (simp add: ensureRoomMember_def getRoomById_def demo_state_def demo_room_def)
  have 4: "getUserVote ?s ''r1'' ''u1'' = None"
    by (simp add: getUserVote_def demo_state_def)
  have 5: "\<not> resolution_exists ?s ''x9''"
    by (simp add: resolution_exists_def demo_state_def demo_resolutions_def)
  have 6: "''v1'' \<notin> set (map vote_id (votes ?s))"
    by (simp add: demo_state_def)
  from vote_route_absent_entity [of ?s "''ZZZZZZ''" "''u3''" "''r9''" 10 "''v1''" 11 "''x1''"] 1 2
  have a: "join_room_route ?s ''u3'' ''ZZZZZZ'' = (?s, Status 404 ''Room not found'')"
    "vote_route ?s 10 ''v1'' 11 ''u3'' ''r9'' ''x1'' = (?s, Status 403 ''Access denied'')"
    by blast+
  from vote_route_absent_entity [of ?s _ "''u1''" "''r1''" 10 "''v1''" 11 "''x9''"] 3 4 5 6
  have b: "vote_route ?s 10 ''v1'' 11 ''u1'' ''r1'' ''x9''
       = (?s, Caught 500 (ForeignKeyViolation ''votes.resolution_id''))"
    by simp
  from 1 2 3 4 5 a b show ?thesis by blast
qed

subsection \<open>The checks of the generation route\<close>

lemma checkResolutionLimit_frame [simp]:
  "users (snd (checkResolutionLimit s today uid)) = users s"
  "rooms (snd (checkResolutionLimit s today uid)) = rooms s"
  "messages (snd (checkResolutionLimit s today uid)) = messages s"
  "resolutions (snd (checkResolutionLimit s today uid)) = resolutions s"
  "votes (snd (checkResolutionLimit s today uid)) = votes s"
  "roomConnections (snd (checkResolutionLimit s today uid)) = roomConnections s"
  "readyState (snd (checkResolutionLimit s today uid)) = readyState s"
  "sent (snd (checkResolutionLimit s today uid)) = sent s"
  by (simp_all add: checkResolutionLimit_def Let_def split: option.splits)

lemma checkResolutionLimit_refused:
  "\<not> allowed (fst (checkResolutionLimit s today uid)) \<Longrightarrow>
     snd (checkResolutionLimit s today uid) = s"
  by (simp add: checkResolutionLimit_def Let_def split: option.splits if_splits)

lemma getRoomMessages_checkResolutionLimit [simp]:
  "getRoomMessages (snd (checkResolutionLimit s today uid)) roomId = getRoomMessages s roomId"
  by (simp add: getRoomMessages_def)

lemma generate_route_unfold:
  "generate_resolutions_route env s now today newIds uid roomId =
     (if \<not> ensureRoomMember s roomId uid then (s, Status 403 ''Access denied'', [])
      else if \<not> allowed (fst (checkResolutionLimit s today uid)) then
        (snd (checkResolutionLimit s today uid), Status 429
           ''Daily resolution limit reached. Upgrade to PRO for unlimited resolutions.'', [])
      else if length (getRoomMessages (snd (checkResolutionLimit s today uid)) roomId) < 4 then
        (snd (checkResolutionLimit s today uid),
         Status 400 ''Need at least 4 messages to generate resolutions'', [])
      else generate_and_save env (snd (checkResolutionLimit s today uid)) now newIds uid roomId)"
  unfolding generate_resolutions_route_def generate_and_save_def Let_def split_beta
  by (rule refl)

lemma generate_route_denied:
  "\<not> ensureRoomMember s roomId uid \<Longrightarrow>
     generate_resolutions_route env s now today newIds uid roomId =
       (s, Status 403 ''Access denied'', [])"
  by (simp add: generate_route_unfold)

lemma generate_route_limited:
  "ensureRoomMember s roomId uid \<Longrightarrow> \<not> allowed (fst (checkResolutionLimit s today uid)) \<Longrightarrow>
     generate_resolutions_route env s now today newIds uid roomId =
       (s, Status 429
             ''Daily resolution limit reached. Upgrade to PRO for unlimited resolutions.'', [])"
  by (simp add: generate_route_unfold checkResolutionLimit_refused)

lemma generate_route_few:
  "ensureRoomMember s roomId uid \<Longrightarrow> allowed (fst (checkResolutionLimit s today uid)) \<Longrightarrow>
   length (getRoomMessages s roomId) < 4 \<Longrightarrow>
     generate_resolutions_route env s now today newIds uid roomId =
       (snd (checkResolutionLimit s today uid),
        Status 400 ''Need at least 4 messages to generate resolutions'', [])"
  by (simp add: generate_route_unfold)

lemma generate_route_proceeds:
  "ensureRoomMember s roomId uid \<Longrightarrow> allowed (fst (checkResolutionLimit s today uid)) \<Longrightarrow>
   \<not> length (getRoomMessages s roomId) < 4 \<Longrightarrow>
     generate_resolutions_route env s now today newIds uid roomId =
       generate_and_save env (snd (checkResolutionLimit s today uid)) now newIds uid roomId"
  by (simp add: generate_route_unfold)

lemma generate_and_save_reply:
  "fst (snd (generate_and_save env s1 now newIds uid roomId)) \<noteq> Status c m"
  by (simp add: generate_and_save_def split_beta split: sum.splits)

lemma generate_and_save_calls:
  "snd (snd (generate_and_save env s1 now newIds uid roomId)) =
     fst (generateResolutions env (map message_or_transcript (getRoomMessages s1 roomId)))"
  by (simp add: generate_and_save_def split_beta split: sum.splits)

text \<open>
  C4. The route checks membership first, then the daily limit, then the number of
  messages: a non-member gets 403 whatever the limit and the messages are; a member over
  the limit gets 429 whatever the messages are; a member within the limit gets
  \<^verbatim>\<open>400 Need at least 4 messages\<close> exactly when the room has fewer than four messages, and with
  four or more the generator is run on the texts of the messages.
\<close>

theorem generate_route_preconditions:
  "(\<not> ensureRoomMember s roomId uid \<longrightarrow>
      generate_resolutions_route env s now today newIds uid roomId =
        (s, Status 403 ''Access denied'', []))
   \<and> (ensureRoomMember s roomId uid \<and> \<not> allowed (fst (checkResolutionLimit s today uid)) \<longrightarrow>
      generate_resolutions_route env s now today newIds uid roomId =
        (s, Status 429
              ''Daily resolution limit reached. Upgrade to PRO for unlimited resolutions.'', []))
   \<and> (ensureRoomMember s roomId uid \<and> allowed (fst (checkResolutionLimit s today uid)) \<longrightarrow>
        (fst (snd (generate_resolutions_route env s now today newIds uid roomId)) =
           Status 400 ''Need at least 4 messages to generate resolutions''
         \<longleftrightarrow> length (getRoomMessages s roomId) < 4)
        \<and> (4 \<le> length (getRoomMessages s roomId) \<longrightarrow>
             snd (snd (generate_resolutions_route env s now today newIds uid roomId)) =
               fst (generateResolutions env
                      (map message_or_transcript (getRoomMessages s roomId)))))"
proof (intro conjI impI)
  assume "\<not> ensureRoomMember s roomId uid"
  then show "generate_resolutions_route env s now today newIds uid roomId =
        (s, Status 403 ''Access denied'', [])"
    by (rule generate_route_denied)
next
  assume "ensureRoomMember s roomId uid \<and> \<not> allowed (fst (checkResolutionLimit s today uid))"
  then show "generate_resolutions_route env s now today newIds uid roomId =
        (s, Status 429
              ''Daily resolution limit reached. Upgrade to PRO for unlimited resolutions.'', [])"
    by (simp add: generate_route_limited)
next
  assume a: "ensureRoomMember s roomId uid \<and> allowed (fst (checkResolutionLimit s today uid))"
  show "fst (snd (generate_resolutions_route env s now today newIds uid roomId)) =
           Status 400 ''Need at least 4 messages to generate resolutions''
         \<longleftrightarrow> length (getRoomMessages s roomId) < 4"
  proof (cases "length (getRoomMessages s roomId) < 4")
    case True
    with a show ?thesis by (simp add: generate_route_few)
  next
    case False
    with a show ?thesis by (simp add: generate_route_proceeds generate_and_save_reply)
  qed
next
  assume a: "ensureRoomMember s roomId uid \<and> allowed (fst (checkResolutionLimit s today uid))"
    and b: "4 \<le> length (getRoomMessages s roomId)"
  from a b show "snd (snd (generate_resolutions_route env s now today newIds uid roomId)) =
               fst (generateResolutions env
                      (map message_or_transcript (getRoomMessages s roomId)))"
    by (simp add: generate_route_proceeds generate_and_save_calls)
qed

subsection \<open>The generator: one retry, then the fallback\<close>

lemma retry_once_attempt:
  "retry_once tg parse prompt =
     (case attempt tg parse (retry_call prompt) of Parsed p \<Rightarrow> p | _ \<Rightarrow> generateFallbackResolutions)"
  by (simp add: retry_once_def attempt_def split: option.splits)

lemma generateResolutions_attempt:
  assumes "hf env = Some tg"
  shows "generateResolutions env msgs =
     (case attempt tg (JSON_parse env) (first_call (buildResolutionPrompt (join_lines msgs))) of
        Parsed p \<Rightarrow> ([first_call (buildResolutionPrompt (join_lines msgs))], Inr p)
      | NoJson \<Rightarrow> ([first_call (buildResolutionPrompt (join_lines msgs))],
                   Inr generateFallbackResolutions)
      | _ \<Rightarrow> ([first_call (buildResolutionPrompt (join_lines msgs)),
                retry_call (buildResolutionPrompt (join_lines msgs))],
               Inr (case attempt tg (JSON_parse env)
                           (retry_call (buildResolutionPrompt (join_lines msgs))) of
                      Parsed p \<Rightarrow> p
                    | _ \<Rightarrow> generateFallbackResolutions)))"
  using assms
  by (simp add: generateResolutions_def Let_def retry_once_attempt attempt_def split: option.splits)

lemma generateResolutions_fallback:
  assumes "hf env = Some tg"
    and "fallback_path tg (JSON_parse env) (buildResolutionPrompt (join_lines msgs))"
  shows "snd (generateResolutions env msgs) = Inr generateFallbackResolutions"
  using assms(2) unfolding generateResolutions_attempt [OF assms(1)] fallback_path_def
  by (simp split: attempt.splits)

lemma generateResolutions_returns:
  assumes "hf env = Some tg"
  shows "\<exists>r. snd (generateResolutions env msgs) = Inr r"
  unfolding generateResolutions_attempt [OF assms] by (simp split: attempt.splits)

lemma fallback_candidates:
  "candidates generateFallbackResolutions =
     Some
       [JObject
          [(''id'', JString ''1''),
           (''title'', JString ''Compromise Solution''),
           (''description'', JString ''Both parties meet in the middle by making equal concessions to reach a balanced agreement that addresses core concerns.''),
           (''ai_score'', JNumber 80),
           (''suggested_best'', JNumber 1)],
        JObject
          [(''id'', JString ''2''),
           (''title'', JString ''Time-Based Trial''),
           (''description'', JString ''Implement one approach for a defined trial period, then evaluate and adjust based on results before committing long-term.''),
           (''ai_score'', JNumber 70),
           (''suggested_best'', JNumber 0)],
        JObject
          [(''id'', JString ''3''),
           (''title'', JString ''Alternative Perspective''),
           (''description'', JString ''Explore a third option that neither party initially considered, potentially solving the underlying issue differently.''),
           (''ai_score'', JNumber 65),
           (''suggested_best'', JNumber 0)]]"
  by (simp add: candidates_def property_def generateFallbackResolutions_def)

lemma fallback_titles:
  "map_option (map (\<lambda>c. property c ''title'')) (candidates generateFallbackResolutions) =
     Some [Some (JString ''Compromise Solution''), Some (JString ''Time-Based Trial''),
           Some (JString ''Alternative Perspective'')]"
  by (simp add: fallback_candidates property_def)

lemma fallback_shape:
  "\<exists>cs. candidates generateFallbackResolutions = Some cs \<and> length cs = 3 \<and> list_all storable cs \<and>
        map (\<lambda>c. property c ''ai_score'') cs
          = [Some (JNumber 80), Some (JNumber 70), Some (JNumber 65)] \<and>
        map (\<lambda>c. property c ''suggested_best'' = Some (JNumber 1)) cs = [True, False, False]"
  by (simp add: fallback_candidates property_def storable_def string_of_def number_of_def)

lemma retry_is_cooler: "temperature (retry_call p) < temperature (first_call p)"
  by (simp add: retry_call_def first_call_def)

subsection \<open>What the route saves and delivers\<close>

lemma all_or_first_Inr:
  "all_or_first xs = Inr vs \<Longrightarrow> list_all2 (\<lambda>x v. x = Inr v) xs vs"
  by (induction xs arbitrary: vs) (auto split: sum.splits)

lemma insert_rows_Inr:
  "insert_rows now keys ivs = Inr rows \<Longrightarrow>
     list_all2 (\<lambda>p r. resolution_id r = fst p \<and> resolution_roomId r = val_roomId (snd p) \<and>
                      val_title (snd p) = Some (title r) \<and>
                      val_description (snd p) = Some (description r) \<and>
                      val_aiScore (snd p) = Some (aiScore r) \<and>
                      suggestedBest r = val_suggestedBest (snd p) \<and> generatedAt r = now)
       ivs rows"
  by (induction now keys ivs arbitrary: rows rule: insert_rows.induct)
    (auto split: option.splits if_splits sum.splits)

lemma insert_rows_succeeds:
  "distinct (map fst ivs) \<Longrightarrow> set (map fst ivs) \<inter> set keys = {} \<Longrightarrow>
   list_all (\<lambda>p. val_title (snd p) \<noteq> None \<and> val_description (snd p) \<noteq> None \<and>
                  val_aiScore (snd p) \<noteq> None) ivs \<Longrightarrow>
     \<exists>rows. insert_rows now keys ivs = Inr rows"
proof (induction now keys ivs rule: insert_rows.induct)
  case (1 now keys)
  then show ?case by simp
next
  case (2 now keys i v rest)
  from "2.prems" obtain t d n where v: "val_title v = Some t" "val_description v = Some d"
    "val_aiScore v = Some n"
    by auto
  from "2.prems" have i: "i \<notin> set keys" by auto
  have "\<exists>rows. insert_rows now (i # keys) rest = Inr rows"
  proof (rule "2.IH" [OF v i])
    show "distinct (map fst rest)" using "2.prems"(1) by simp
    show "set (map fst rest) \<inter> set (i # keys) = {}" using "2.prems"(1,2) by auto
    show "list_all (\<lambda>p. val_title (snd p) \<noteq> None \<and> val_description (snd p) \<noteq> None \<and>
                  val_aiScore (snd p) \<noteq> None) rest"
      using "2.prems"(3) by simp
  qed
  with v i show ?case by auto
qed

lemma bind_values_Inr:
  "bind_values env x = Inr v \<Longrightarrow>
     text_value env ''resolutions.title'' (ins_title x) = Inr (val_title v) \<and>
     text_value env ''resolutions.description'' (ins_description x) = Inr (val_description v) \<and>
     integer_value env ''resolutions.ai_score'' (ins_aiScore x) = Inr (val_aiScore v) \<and>
     val_roomId v = ins_roomId x \<and> val_suggestedBest v = ins_suggestedBest x"
  by (auto simp: bind_values_def split: sum.splits)

lemma list_all2_zip_left:
  "length is = length vs \<Longrightarrow> list_all2 P (zip is vs) rows \<Longrightarrow>
     list_all2 (\<lambda>v r. \<exists>i. P (i, v) r) vs rows \<and> list_all2 (\<lambda>i r. \<exists>v. P (i, v) r) is rows"
proof (induction "is" vs arbitrary: rows rule: list_induct2)
  case Nil
  then show ?case by simp
next
  case (Cons i "is" v vs)
  then show ?case by (cases rows) auto
qed

lemma createResolutions_Inr:
  assumes "createResolutions env s now newIds l = Inr (s2, saved)"
  shows "s2 = s\<lparr>resolutions := resolutions s @ saved\<rparr>"
    and "l \<noteq> []"
    and "list_all2 (saved_as env now) l saved"
    and "map resolution_id saved = map newIds [0..<length l]"
proof -
  from assms have ne: "l \<noteq> []" by (auto simp: createResolutions_def split: if_splits)
  from assms ne obtain vals where
    vals: "all_or_first (map (bind_values env) l) = Inr vals"
    and ins: "insert_rows now (map resolution_id (resolutions s))
                (zip (map newIds [0..<length vals]) vals) = Inr saved"
    and s2: "s2 = s\<lparr>resolutions := resolutions s @ saved\<rparr>"
    by (auto simp: createResolutions_def split: sum.splits if_splits)
  from all_or_first_Inr [OF vals]
  have b: "list_all2 (\<lambda>x v. bind_values env x = Inr v) l vals"
    by (simp add: list_all2_map1)
  then have len: "length vals = length l" by (simp add: list_all2_lengthD)
  let ?P = "\<lambda>(p :: string \<times> resolution_values) (r :: resolution). resolution_id r = fst p \<and> resolution_roomId r = val_roomId (snd p) \<and>
                      val_title (snd p) = Some (title r) \<and>
                      val_description (snd p) = Some (description r) \<and>
                      val_aiScore (snd p) = Some (aiScore r) \<and>
                      suggestedBest r = val_suggestedBest (snd p) \<and> generatedAt r = now"
  have z: "list_all2 ?P (zip (map newIds [0..<length vals]) vals) saved"
    using insert_rows_Inr [OF ins] .
  have lz: "length (map newIds [0..<length vals]) = length vals" by simp
  note zl = list_all2_zip_left [OF lz z]
  have v: "list_all2 (\<lambda>v r. \<exists>i. ?P (i, v) r) vals saved"
    by (rule conjunct1 [OF zl])
  have i: "list_all2 (\<lambda>i r. \<exists>v. ?P (i, v) r) (map newIds [0..<length vals]) saved"
    by (rule conjunct2 [OF zl])
  have "list_all2 (\<lambda>x r. \<exists>v. bind_values env x = Inr v \<and> (\<exists>i. ?P (i, v) r)) l saved"
    using b v by (auto simp: list_all2_conv_all_nth)
  then have "list_all2 (saved_as env now) l saved"
    by (rule list_all2_mono) (auto simp: saved_as_def dest!: bind_values_Inr)
  moreover have "map resolution_id saved = map newIds [0..<length l]"
    using i len by (auto simp: list_all2_conv_all_nth intro: nth_equalityI)
  ultimately show "s2 = s\<lparr>resolutions := resolutions s @ saved\<rparr>" "l \<noteq> []"
    "list_all2 (saved_as env now) l saved" "map resolution_id saved = map newIds [0..<length l]"
    using s2 ne by simp_all
qed

lemma all_or_first_map_Inr: "all_or_first (map Inr vs) = Inr vs"
  by (induction vs) simp_all

lemma all_or_first_succeeds:
  "list_all (\<lambda>x. \<exists>v. f x = Inr v) l \<Longrightarrow>
     \<exists>vals. all_or_first (map f l) = Inr vals \<and> list_all2 (\<lambda>x v. f x = Inr v) l vals"
proof (induction l)
  case Nil
  then show ?case by simp
next
  case (Cons x l)
  then obtain v vals where "f x = Inr v" "all_or_first (map f l) = Inr vals"
    "list_all2 (\<lambda>x v. f x = Inr v) l vals"
    by auto
  then show ?case by auto
qed

text \<open>A row that binds to values none of which is \<^verbatim>\<open>NULL\<close>.\<close>

lemma createResolutions_succeeds:
  assumes ne: "l \<noteq> []" and fresh: "fresh_ids s newIds (length l)"
    and rooms: "list_all (\<lambda>r. room_exists s (ins_roomId r)) l"
    and vals: "list_all (\<lambda>x. \<exists>t d n. text_value env ''resolutions.title'' (ins_title x) = Inr (Some t) \<and>
                 text_value env ''resolutions.description'' (ins_description x) = Inr (Some d) \<and>
                 integer_value env ''resolutions.ai_score'' (ins_aiScore x) = Inr (Some n)) l"
  shows "\<exists>s2 saved. createResolutions env s now newIds l = Inr (s2, saved)"
proof -
  have "list_all (\<lambda>x. \<exists>v. bind_values env x = Inr v) l"
    using vals by (auto simp: list_all_iff bind_values_def)
  from all_or_first_succeeds [OF this] obtain vs where
    vs: "all_or_first (map (bind_values env) l) = Inr vs"
    and b: "list_all2 (\<lambda>x v. bind_values env x = Inr v) l vs"
    by blast
  have len: "length vs = length l" using b by (simp add: list_all2_lengthD)
  let ?ivs = "zip (map newIds [0..<length vs]) vs"
  have fst_ivs: "map fst ?ivs = map newIds [0..<length l]" using len by simp
  have some: "val_title v \<noteq> None \<and> val_description v \<noteq> None \<and> val_aiScore v \<noteq> None"
    and room: "room_exists s (val_roomId v)" if "v \<in> set vs" for v
  proof -
    from that obtain k where k: "k < length vs" "vs ! k = v" by (auto simp: in_set_conv_nth)
    with b have bk: "bind_values env (l ! k) = Inr v" by (auto simp: list_all2_conv_all_nth)
    from k len have mem: "l ! k \<in> set l" by simp
    with vals obtain t d n where
      "text_value env ''resolutions.title'' (ins_title (l ! k)) = Inr (Some t)"
      "text_value env ''resolutions.description'' (ins_description (l ! k)) = Inr (Some d)"
      "integer_value env ''resolutions.ai_score'' (ins_aiScore (l ! k)) = Inr (Some n)"
      unfolding list_all_iff by blast
    with bind_values_Inr [OF bk]
    have "val_title v = Some t" "val_description v = Some d" "val_aiScore v = Some n"
      by simp_all
    then show "val_title v \<noteq> None \<and> val_description v \<noteq> None \<and> val_aiScore v \<noteq> None"
      by simp
    from mem rooms bind_values_Inr [OF bk] show "room_exists s (val_roomId v)"
      by (simp add: list_all_iff)
  qed
  have "list_all (\<lambda>p. val_title (snd p) \<noteq> None \<and> val_description (snd p) \<noteq> None \<and>
                  val_aiScore (snd p) \<noteq> None) ?ivs"
    using some by (auto simp: list_all_iff dest!: set_zip_rightD)
  moreover have "distinct (map fst ?ivs)"
    using fresh unfolding fst_ivs by (simp add: fresh_ids_def)
  moreover have "set (map fst ?ivs) \<inter> set (map resolution_id (resolutions s)) = {}"
    using fresh unfolding fst_ivs
    by (auto simp: fresh_ids_def list_ex_iff resolution_exists_def)
  ultimately obtain rows where
    rows: "insert_rows now (map resolution_id (resolutions s)) ?ivs = Inr rows"
    using insert_rows_succeeds by blast
  have "room_exists s (resolution_roomId r)" if "r \<in> set rows" for r
  proof -
    from that obtain k where k: "k < length rows" "rows ! k = r" by (auto simp: in_set_conv_nth)
    from insert_rows_Inr [OF rows] k
    have "k < length ?ivs" "resolution_roomId r = val_roomId (snd (?ivs ! k))"
      by (auto simp: list_all2_conv_all_nth)
    then show ?thesis using room [of "vs ! k"] by simp
  qed
  then have "\<not> list_ex (\<lambda>r. \<not> room_exists s (resolution_roomId r)) rows"
    by (auto simp: list_ex_iff)
  with ne vs rows show ?thesis by (simp add: createResolutions_def)
qed

lemma resolutionsToInsert_candidates:
  "resolutionsToInsert roomId a =
     (case candidates a of
        None \<Rightarrow> Inl TypeError
      | Some cs \<Rightarrow>
          if JNull \<in> set cs then Inl TypeError
          else Inr (map (\<lambda>r. \<lparr>ins_roomId = roomId, ins_title = property r ''title'',
                               ins_description = property r ''description'',
                               ins_aiScore = property r ''ai_score'',
                               ins_suggestedBest =
                                 (property r ''suggested_best'' = Some (JNumber 1))\<rparr>) cs))"
  by (simp add: resolutionsToInsert_def candidates_def split: option.splits json.splits)

lemma text_value_Some:
  assumes "text_value env col v = Inr (Some t)"
  shows "\<not> absent v" and "v = Some (JString str) \<Longrightarrow> t = str"
  using assms
  by (auto simp: text_value_def absent_def Let_def split: option.splits json.splits if_splits)

lemma integer_value_Some:
  assumes "integer_value env col v = Inr (Some n)"
  shows "\<not> absent v" and "\<not> no_integer v" and "v = Some (JNumber q) \<Longrightarrow> of_int n = q"
  using assms
  by (auto simp: integer_value_def absent_def no_integer_def
      split: option.splits json.splits if_splits sum.splits)

lemma string_of_Some: "string_of v = Some t \<longleftrightarrow> v = Some (JString t)"
  by (cases v; cases "the v") (simp_all add: string_of_def)

lemma number_of_Some: "number_of v = Some q \<longleftrightarrow> v = Some (JNumber q)"
  by (cases v; cases "the v") (simp_all add: number_of_def)

lemma storable_values:
  assumes "storable c"
  shows "\<exists>t d n. text_value env ''resolutions.title'' (property c ''title'') = Inr (Some t) \<and>
           text_value env ''resolutions.description'' (property c ''description'') = Inr (Some d) \<and>
           integer_value env ''resolutions.ai_score'' (property c ''ai_score'') = Inr (Some n)"
proof -
  from assms obtain t d q where "string_of (property c ''title'') = Some t"
    "string_of (property c ''description'') = Some d" "number_of (property c ''ai_score'') = Some q"
    and ok: "CHR 0x00 \<notin> set t" "CHR 0x00 \<notin> set d" "of_int \<lfloor>q\<rfloor> = q"
      "- 2147483648 \<le> q" "q \<le> 2147483647"
    by (auto simp: storable_def split: option.splits)
  then have p: "property c ''title'' = Some (JString t)"
    "property c ''description'' = Some (JString d)" "property c ''ai_score'' = Some (JNumber q)"
    by (simp_all add: string_of_Some number_of_Some)
  have tv: "text_value env col (Some (JString x)) = Inr (Some x)" if "CHR 0x00 \<notin> set x" for col x
    using that by (simp add: text_value_def)
  from ok(4) have lo: "- 2147483648 \<le> \<lfloor>q\<rfloor>"
    by (simp add: le_floor_iff)
  from ok(5) have hi: "\<lfloor>q\<rfloor> \<le> 2147483647"
    by (simp add: floor_le_iff)
  have "\<bar>q\<bar> \<le> 2147483648" using ok(4,5) by (simp add: abs_le_iff)
  also have "(2147483648 :: rat) < 10 ^ 21" by simp
  finally have small: "\<not> 10 ^ 21 \<le> \<bar>q\<bar>" by simp
  have "integer_value env ''resolutions.ai_score'' (Some (JNumber q)) = Inr (Some \<lfloor>q\<rfloor>)"
    unfolding integer_value_def using ok(3) lo hi small by simp
  with p tv [OF ok(1)] tv [OF ok(2)] show ?thesis by simp
qed

lemma storable_not_null: "storable c \<Longrightarrow> c \<noteq> JNull"
  by (auto simp: storable_def property_def string_of_def)

lemma saved_as_received:
  assumes "c \<noteq> JNull"
    and "saved_as env now
           \<lparr>ins_roomId = roomId, ins_title = property c ''title'',
            ins_description = property c ''description'', ins_aiScore = property c ''ai_score'',
            ins_suggestedBest = (property c ''suggested_best'' = Some (JNumber 1))\<rparr> r"
  shows "as_received c r" and "\<not> unstorable c" and "resolution_roomId r = roomId"
    and "generatedAt r = now"
proof -
  from assms(2) have t: "text_value env ''resolutions.title'' (property c ''title'') = Inr (Some (title r))"
    and d: "text_value env ''resolutions.description'' (property c ''description'')
              = Inr (Some (description r))"
    and n: "integer_value env ''resolutions.ai_score'' (property c ''ai_score'') = Inr (Some (aiScore r))"
    and b: "suggestedBest r = (property c ''suggested_best'' = Some (JNumber 1))"
    and rest: "resolution_roomId r = roomId" "generatedAt r = now"
    by (simp_all add: saved_as_def)
  show "as_received c r"
    using text_value_Some(2) [OF t] text_value_Some(2) [OF d] integer_value_Some(3) [OF n] b
    by (auto simp: as_received_def string_of_Some number_of_Some split: option.splits)
  show "\<not> unstorable c"
    using assms(1) text_value_Some(1) [OF t] text_value_Some(1) [OF d]
      integer_value_Some(1,2) [OF n]
    by (simp add: unstorable_def)
  show "resolution_roomId r = roomId" "generatedAt r = now" by (rule rest)+
qed

lemma incrementResolutionCount_frame [simp]:
  "users (incrementResolutionCount s now uid) = users s"
  "rooms (incrementResolutionCount s now uid) = rooms s"
  "messages (incrementResolutionCount s now uid) = messages s"
  "resolutions (incrementResolutionCount s now uid) = resolutions s"
  "votes (incrementResolutionCount s now uid) = votes s"
  "roomConnections (incrementResolutionCount s now uid) = roomConnections s"
  "readyState (incrementResolutionCount s now uid) = readyState s"
  "sent (incrementResolutionCount s now uid) = sent s"
  by (simp_all add: incrementResolutionCount_def split: option.splits)

lemma exists_checkResolutionLimit [simp]:
  "resolution_exists (snd (checkResolutionLimit s today uid)) = resolution_exists s"
  "room_exists (snd (checkResolutionLimit s today uid)) = room_exists s"
  by (simp_all add: fun_eq_iff resolution_exists_def room_exists_def)

lemma generate_route_Json:
  assumes "fst (snd (generate_resolutions_route env s now today newIds uid roomId)) = Json saved"
  shows "ensureRoomMember s roomId uid \<and> allowed (fst (checkResolutionLimit s today uid)) \<and>
         \<not> length (getRoomMessages s roomId) < 4"
  using assms by (auto simp: generate_route_unfold split: if_splits)


lemma generate_and_save_Json:
  assumes gen: "snd (generateResolutions env (map message_or_transcript (getRoomMessages s1 roomId)))
                  = Inr a"
    and js: "fst (snd (generate_and_save env s1 now newIds uid roomId)) = Json saved"
  shows "\<exists>cs. candidates a = Some cs \<and> cs \<noteq> [] \<and> \<not> list_ex unstorable cs \<and>
              list_all2 as_received cs saved \<and>
              list_all (\<lambda>r. resolution_roomId r = roomId \<and> generatedAt r = now) saved \<and>
              map resolution_id saved = map newIds [0..<length cs]"
    and "fst (generate_and_save env s1 now newIds uid roomId) =
           broadcastToRoom
             (incrementResolutionCount (s1\<lparr>resolutions := resolutions s1 @ saved\<rparr>) now uid)
             roomId (ResolutionsGenerated saved) None"
proof -
  let ?f = "\<lambda>r. \<lparr>ins_roomId = roomId, ins_title = property r ''title'',
                  ins_description = property r ''description'',
                  ins_aiScore = property r ''ai_score'',
                  ins_suggestedBest = (property r ''suggested_best'' = Some (JNumber 1))\<rparr>"
  from gen js obtain l s2 where l: "resolutionsToInsert roomId a = Inr l"
    and cr: "createResolutions env s1 now newIds l = Inr (s2, saved)"
    and st: "fst (generate_and_save env s1 now newIds uid roomId) =
               broadcastToRoom (incrementResolutionCount s2 now uid) roomId
                 (ResolutionsGenerated saved) None"
    by (auto simp: generate_and_save_def split_beta split: sum.splits)
  from l obtain cs where cs: "candidates a = Some cs" "JNull \<notin> set cs" "l = map ?f cs"
    by (auto simp: resolutionsToInsert_candidates split: option.splits if_splits)
  note c = createResolutions_Inr [OF cr]
  from c(2) cs(3) have ne: "cs \<noteq> []" by simp
  from c(3) have sv: "list_all2 (\<lambda>c r. saved_as env now (?f c) r) cs saved"
    unfolding cs(3) by (simp add: list_all2_map1)
  then have len: "length cs = length saved" by (rule list_all2_lengthD)
  have each: "as_received (cs ! k) (saved ! k) \<and> \<not> unstorable (cs ! k) \<and>
      resolution_roomId (saved ! k) = roomId \<and> generatedAt (saved ! k) = now"
    if "k < length cs" for k
  proof -
    from that cs(2) have "cs ! k \<noteq> JNull" by (metis nth_mem)
    moreover from sv that have "saved_as env now (?f (cs ! k)) (saved ! k)"
      by (simp add: list_all2_conv_all_nth)
    ultimately show ?thesis using saved_as_received by blast
  qed
  have a: "\<not> list_ex unstorable cs"
    using each by (auto simp: list_ex_iff in_set_conv_nth)
  have b: "list_all2 as_received cs saved"
    using each len by (simp add: list_all2_conv_all_nth)
  have d: "list_all (\<lambda>r. resolution_roomId r = roomId \<and> generatedAt r = now) saved"
    using each len by (auto simp: list_all_iff in_set_conv_nth)
  have e: "map resolution_id saved = map newIds [0..<length cs]"
    using c(4) cs(3) by simp
  from cs(1) ne a b d e
  show "\<exists>cs. candidates a = Some cs \<and> cs \<noteq> [] \<and> \<not> list_ex unstorable cs \<and>
              list_all2 as_received cs saved \<and>
              list_all (\<lambda>r. resolution_roomId r = roomId \<and> generatedAt r = now) saved \<and>
              map resolution_id saved = map newIds [0..<length cs]"
    by blast
  from st c(1) show "fst (generate_and_save env s1 now newIds uid roomId) =
           broadcastToRoom
             (incrementResolutionCount (s1\<lparr>resolutions := resolutions s1 @ saved\<rparr>) now uid)
             roomId (ResolutionsGenerated saved) None"
    by simp
qed

lemma generate_and_save_storable:
  assumes gen: "snd (generateResolutions env (map message_or_transcript (getRoomMessages s1 roomId)))
                  = Inr a"
    and cs: "candidates a = Some cs" "cs \<noteq> []" "list_all storable cs"
    and fresh: "fresh_ids s1 newIds (length cs)" and room: "room_exists s1 roomId"
  shows "\<exists>saved. fst (snd (generate_and_save env s1 now newIds uid roomId)) = Json saved"
proof -
  let ?f = "\<lambda>r. \<lparr>ins_roomId = roomId, ins_title = property r ''title'',
                  ins_description = property r ''description'',
                  ins_aiScore = property r ''ai_score'',
                  ins_suggestedBest = (property r ''suggested_best'' = Some (JNumber 1))\<rparr>"
  from cs(3) have "JNull \<notin> set cs"
    using storable_not_null by (auto simp: list_all_iff)
  with cs(1) have l: "resolutionsToInsert roomId a = Inr (map ?f cs)"
    by (simp add: resolutionsToInsert_candidates)
  have "\<exists>s2 saved. createResolutions env s1 now newIds (map ?f cs) = Inr (s2, saved)"
  proof (rule createResolutions_succeeds)
    show "map ?f cs \<noteq> []" using cs(2) by simp
    show "fresh_ids s1 newIds (length (map ?f cs))" using fresh by simp
    show "list_all (\<lambda>r. room_exists s1 (ins_roomId r)) (map ?f cs)"
      using room by (simp add: list_all_iff)
    show "list_all (\<lambda>x. \<exists>t d n. text_value env ''resolutions.title'' (ins_title x) = Inr (Some t) \<and>
                 text_value env ''resolutions.description'' (ins_description x) = Inr (Some d) \<and>
                 integer_value env ''resolutions.ai_score'' (ins_aiScore x) = Inr (Some n))
            (map ?f cs)"
      using cs(3) storable_values [of _ env] by (simp add: list_all_iff)
  qed
  with gen l show ?thesis
    by (auto simp: generate_and_save_def split_beta)
qed


lemma fallback_rows:
  assumes "candidates generateFallbackResolutions = Some cs" "list_all2 as_received cs saved"
  shows "map title saved =
           [''Compromise Solution'', ''Time-Based Trial'', ''Alternative Perspective'']"
    and "map aiScore saved = [80, 70, 65]"
    and "map suggestedBest saved = [True, False, False]"
proof -
  from assms obtain r0 r1 r2 where saved: "saved = [r0, r1, r2]"
    and r: "as_received (cs ! 0) r0" "as_received (cs ! 1) r1" "as_received (cs ! 2) r2"
    unfolding fallback_candidates by (auto simp: list_all2_Cons1)
  from assms(1) have cs: "cs = the (candidates generateFallbackResolutions)" by simp
  from r show "map title saved =
           [''Compromise Solution'', ''Time-Based Trial'', ''Alternative Perspective'']"
    unfolding saved cs fallback_candidates
    by (simp add: as_received_def property_def string_of_def number_of_def)
  from r show "map aiScore saved = [80, 70, 65]"
    unfolding saved cs fallback_candidates
    by (simp add: as_received_def property_def string_of_def number_of_def)
  from r show "map suggestedBest saved = [True, False, False]"
    unfolding saved cs fallback_candidates
    by (simp add: as_received_def property_def string_of_def number_of_def)
qed

lemma generate_route_delivered:
  assumes gen: "snd (generateResolutions env (map message_or_transcript (getRoomMessages s roomId)))
                  = Inr a"
    and js: "fst (snd (generate_resolutions_route env s now today newIds uid roomId)) = Json saved"
  shows "\<exists>cs. candidates a = Some cs \<and> length cs = length saved \<and> list_all2 as_received cs saved"
    and "resolutions (fst (generate_resolutions_route env s now today newIds uid roomId))
           = resolutions s @ saved"
    and "sent (fst (generate_resolutions_route env s now today newIds uid roomId))
           = sent s @ deliveries s (registered s roomId) (ResolutionsGenerated saved) None"
proof -
  let ?s1 = "snd (checkResolutionLimit s today uid)"
  from generate_route_Json [OF js]
  have route: "generate_resolutions_route env s now today newIds uid roomId =
      generate_and_save env ?s1 now newIds uid roomId"
    by (simp add: generate_route_proceeds)
  from gen have gen1: "snd (generateResolutions env
      (map message_or_transcript (getRoomMessages ?s1 roomId))) = Inr a"
    by simp
  from js route have js1: "fst (snd (generate_and_save env ?s1 now newIds uid roomId)) = Json saved"
    by simp
  note d = generate_and_save_Json [OF gen1 js1]
  from d(1) show "\<exists>cs. candidates a = Some cs \<and> length cs = length saved \<and>
      list_all2 as_received cs saved"
    by (auto dest: list_all2_lengthD)
  show "resolutions (fst (generate_resolutions_route env s now today newIds uid roomId))
           = resolutions s @ saved"
    unfolding route d(2) by simp
  show "sent (fst (generate_resolutions_route env s now today newIds uid roomId))
           = sent s @ deliveries s (registered s roomId) (ResolutionsGenerated saved) None"
    unfolding route d(2)
    by (simp add: broadcastToRoom_sent deliveries_def registered_def)
qed

lemma generate_route_storable:
  assumes mem: "ensureRoomMember s roomId uid"
    and lim: "allowed (fst (checkResolutionLimit s today uid))"
    and four: "4 \<le> length (getRoomMessages s roomId)"
    and gen: "snd (generateResolutions env (map message_or_transcript (getRoomMessages s roomId)))
                = Inr a"
    and cs: "candidates a = Some cs" "cs \<noteq> []" "list_all storable cs"
    and fresh: "fresh_ids s newIds (length cs)"
  shows "\<exists>saved. fst (snd (generate_resolutions_route env s now today newIds uid roomId)) = Json saved"
proof -
  let ?s1 = "snd (checkResolutionLimit s today uid)"
  have route: "generate_resolutions_route env s now today newIds uid roomId =
      generate_and_save env ?s1 now newIds uid roomId"
    using mem lim four by (simp add: generate_route_proceeds)
  from gen have gen1: "snd (generateResolutions env
      (map message_or_transcript (getRoomMessages ?s1 roomId))) = Inr a"
    by simp
  have fresh1: "fresh_ids ?s1 newIds (length cs)"
    using fresh by (simp add: fresh_ids_def)
  have room1: "room_exists ?s1 roomId"
    using ensureRoomMember_room_exists [OF mem] by simp
  from generate_and_save_storable [OF gen1 cs fresh1 room1] route show ?thesis by simp
qed


lemma generate_route_fallback:
  assumes mem: "ensureRoomMember s roomId uid"
    and lim: "allowed (fst (checkResolutionLimit s today uid))"
    and four: "4 \<le> length (getRoomMessages s roomId)"
    and gen: "snd (generateResolutions env (map message_or_transcript (getRoomMessages s roomId)))
                = Inr generateFallbackResolutions"
    and fresh: "fresh_ids s newIds 3"
  shows "\<exists>saved. fst (snd (generate_resolutions_route env s now today newIds uid roomId)) = Json saved
           \<and> map title saved =
               [''Compromise Solution'', ''Time-Based Trial'', ''Alternative Perspective'']
           \<and> map aiScore saved = [80, 70, 65]
           \<and> map suggestedBest saved = [True, False, False]"
proof -
  from fallback_shape obtain cs where cs: "candidates generateFallbackResolutions = Some cs"
    "length cs = 3" "list_all storable cs"
    by blast
  from cs(2) have ne: "cs \<noteq> []" by auto
  from fresh cs(2) have fr: "fresh_ids s newIds (length cs)" by simp
  from generate_route_storable [OF mem lim four gen cs(1) ne cs(3) fr]
  obtain saved where
    js: "fst (snd (generate_resolutions_route env s now today newIds uid roomId)) = Json saved"
    by blast
  from generate_route_delivered(1) [OF gen js] cs(1)
  have "list_all2 as_received cs saved" by simp
  note r = fallback_rows [OF cs(1) this]
  show ?thesis by (intro exI [of _ saved] conjI) (rule js r)+
qed

lemma generate_route_fallback_reply:
  assumes mem: "ensureRoomMember s roomId uid"
    and lim: "allowed (fst (checkResolutionLimit s today uid))"
    and four: "4 \<le> length (getRoomMessages s roomId)"
    and hf: "hf env = Some tg"
    and fb: "fallback_path tg (JSON_parse env) (room_prompt s roomId)"
    and fresh: "fresh_ids s newIds 3"
  shows "\<exists>saved. fst (snd (generate_resolutions_route env s now today newIds uid roomId)) = Json saved
           \<and> map title saved =
               [''Compromise Solution'', ''Time-Based Trial'', ''Alternative Perspective'']"
proof -
  have gen: "snd (generateResolutions env (map message_or_transcript (getRoomMessages s roomId)))
      = Inr generateFallbackResolutions"
    using generateResolutions_fallback [OF hf] fb by (simp add: room_prompt_def)
  from generate_route_fallback [OF mem lim four gen fresh, of now] obtain saved where
    "fst (snd (generate_resolutions_route env s now today newIds uid roomId)) = Json saved"
    "map title saved = [''Compromise Solution'', ''Time-Based Trial'', ''Alternative Perspective'']"
    by (elim exE conjE)
  then show ?thesis by (intro exI [of _ saved] conjI)
qed

text \<open>
  C5 (as amended). With a configured client the generator never throws. It reads the first
  answer: parsed, it is returned after one call; without braces, the fallback batch is
  returned after one call, with no retry; when the call throws or the match does not parse,
  exactly one more call is made, at temperature 0.5 instead of 0.7, and its parsed answer or
  else the fallback batch is returned. The fallback batch is the three fixed resolutions.
  On the fallback path the route still answers with the saved batch.
\<close>

theorem generateResolutions_retry_then_fallback:
  assumes "hf env = Some tg"
  shows "generateResolutions env msgs =
          (case attempt tg (JSON_parse env) (first_call (buildResolutionPrompt (join_lines msgs))) of
             Parsed p \<Rightarrow> ([first_call (buildResolutionPrompt (join_lines msgs))], Inr p)
           | NoJson \<Rightarrow> ([first_call (buildResolutionPrompt (join_lines msgs))],
                        Inr generateFallbackResolutions)
           | _ \<Rightarrow> ([first_call (buildResolutionPrompt (join_lines msgs)),
                     retry_call (buildResolutionPrompt (join_lines msgs))],
                    Inr (case attempt tg (JSON_parse env)
                                (retry_call (buildResolutionPrompt (join_lines msgs))) of
                           Parsed p \<Rightarrow> p
                         | _ \<Rightarrow> generateFallbackResolutions)))
       \<and> (\<exists>r. snd (generateResolutions env msgs) = Inr r)
       \<and> temperature (retry_call (buildResolutionPrompt (join_lines msgs)))
           < temperature (first_call (buildResolutionPrompt (join_lines msgs)))
       \<and> map_option (map (\<lambda>c. property c ''title'')) (candidates generateFallbackResolutions) =
           Some [Some (JString ''Compromise Solution''), Some (JString ''Time-Based Trial''),
                 Some (JString ''Alternative Perspective'')]
       \<and> (ensureRoomMember s roomId uid \<and> allowed (fst (checkResolutionLimit s today uid)) \<and>
          4 \<le> length (getRoomMessages s roomId) \<and>
          fallback_path tg (JSON_parse env) (room_prompt s roomId) \<and> fresh_ids s newIds 3 \<longrightarrow>
          (\<exists>saved. fst (snd (generate_resolutions_route env s now today newIds uid roomId)) = Json saved
             \<and> map title saved =
                 [''Compromise Solution'', ''Time-Based Trial'', ''Alternative Perspective'']))"
  using generateResolutions_attempt [OF assms, of msgs] generateResolutions_returns [OF assms, of msgs]
    retry_is_cooler fallback_titles
    generate_route_fallback_reply [of s roomId uid today env tg newIds now] assms
  by blast

text \<open>
  The claim as stated fails: an answer in prose, with no braces, is not parsable, and the
  generator makes no second call; it returns the fallback batch after the first.
\<close>

theorem generateResolutions_prose_counterexample:
  "jsonMatch ''I am sorry, I cannot help with that.'' = None
   \<and> fst (generateResolutions env_prose (map message_or_transcript four_messages))
       = [first_call (buildResolutionPrompt (join_lines (map message_or_transcript four_messages)))]
   \<and> length (fst (generateResolutions env_prose (map message_or_transcript four_messages))) = 1
   \<and> snd (generateResolutions env_prose (map message_or_transcript four_messages))
       = Inr generateFallbackResolutions"
  by (simp add: generateResolutions_def env_prose_def jsonMatch_def Let_def)


subsection \<open>The concrete conversations\<close>

lemma talk_member:
  "ensureRoomMember (talk_state ms cs) ''r1'' ''u1''"
  "\<not> ensureRoomMember (talk_state ms cs) ''r1'' ''u3''"
  by (simp_all add: ensureRoomMember_def getRoomById_def talk_state_def demo_room_def)

lemma talk_messages:
  "getRoomMessages (talk_state three_messages cs) ''r1'' = three_messages"
  "getRoomMessages (talk_state four_messages cs) ''r1'' = four_messages"
  by (simp_all add: getRoomMessages_def talk_state_def four_messages_def three_messages_def
      demo_message_def)

lemma talk_lengths: "length three_messages = 3" "length four_messages = 4"
  by (simp_all add: four_messages_def three_messages_def)

lemma talk_limit:
  "allowed (fst (checkResolutionLimit (talk_state ms []) today ''u1''))"
  "\<not> allowed (fst (checkResolutionLimit
                   (talk_state ms [(''u1'', \<lparr>count = 3, resetDate = 100\<rparr>)]) 100 ''u1''))"
  by (simp_all add: checkResolutionLimit_def talk_state_def Let_def)

lemma upt_0_3: "[0..<3] = [0, 1, 2]"
  by code_simp

lemma talk_fresh: "fresh_ids (talk_state ms cs) demo_ids 3"
  by (simp add: fresh_ids_def upt_0_3 talk_state_def demo_ids_def resolution_exists_def
      eval_nat_numeral)






lemma generate_empty:
  "generateResolutions env_empty msgs =
     ([first_call (buildResolutionPrompt (join_lines msgs))], Inr (JObject []))"
  by (simp add: generateResolutions_def env_empty_def jsonMatch_def Let_def)

lemma generate_down:
  "generateResolutions env_down msgs =
     ([first_call (buildResolutionPrompt (join_lines msgs)),
       retry_call (buildResolutionPrompt (join_lines msgs))],
      Inr generateFallbackResolutions)"
  by (simp add: generateResolutions_def env_down_def retry_once_def Let_def)









lemma fallback_path_down: "fallback_path (\<lambda>call. None) parse prompt"
  by (simp add: fallback_path_def attempt_def)




theorem generate_route_preconditions_witness:
  "\<not> ensureRoomMember (talk_state four_messages []) ''r1'' ''u3''
   \<and> generate_resolutions_route env_down (talk_state four_messages []) 50 0 demo_ids ''u3'' ''r1''
       = (talk_state four_messages [], Status 403 ''Access denied'', [])
   \<and> ensureRoomMember (talk_state four_messages [(''u1'', \<lparr>count = 3, resetDate = 100\<rparr>)]) ''r1'' ''u1''
   \<and> \<not> allowed (fst (checkResolutionLimit
                     (talk_state four_messages [(''u1'', \<lparr>count = 3, resetDate = 100\<rparr>)]) 100 ''u1''))
   \<and> generate_resolutions_route env_down
         (talk_state four_messages [(''u1'', \<lparr>count = 3, resetDate = 100\<rparr>)]) 150 100 demo_ids ''u1'' ''r1''
       = (talk_state four_messages [(''u1'', \<lparr>count = 3, resetDate = 100\<rparr>)],
          Status 429 ''Daily resolution limit reached. Upgrade to PRO for unlimited resolutions.'', [])
   \<and> allowed (fst (checkResolutionLimit (talk_state three_messages []) 0 ''u1''))
   \<and> length (getRoomMessages (talk_state three_messages []) ''r1'') = 3
   \<and> fst (snd (generate_resolutions_route env_down (talk_state three_messages []) 50 0 demo_ids
                  ''u1'' ''r1''))
       = Status 400 ''Need at least 4 messages to generate resolutions''
   \<and> length (getRoomMessages (talk_state four_messages []) ''r1'') = 4
   \<and> fst (snd (generate_resolutions_route env_down (talk_state four_messages []) 50 0 demo_ids
                  ''u1'' ''r1''))
       \<noteq> Status 400 ''Need at least 4 messages to generate resolutions''
   \<and> length (snd (snd (generate_resolutions_route env_down (talk_state four_messages []) 50 0
                          demo_ids ''u1'' ''r1''))) = 2"
proof -
  let ?full = "talk_state four_messages [(''u1'', \<lparr>count = 3, resetDate = 100\<rparr>)]"
  note m = talk_member [of four_messages "[]"] talk_member [of three_messages "[]"]
    talk_member(1) [of four_messages "[(''u1'', \<lparr>count = 3, resetDate = 100\<rparr>)]"]
  note l = talk_limit(1) [of three_messages 0] talk_limit(1) [of four_messages 0]
    talk_limit(2) [of four_messages]
  have n3: "length (getRoomMessages (talk_state three_messages []) ''r1'') = 3"
    and n4: "length (getRoomMessages (talk_state four_messages []) ''r1'') = 4"
    by (simp_all add: talk_messages talk_lengths)
  have calls: "length (fst (generateResolutions env_down
      (map message_or_transcript (getRoomMessages (talk_state four_messages []) ''r1'')))) = 2"
    by (simp add: generate_down)
  from generate_route_preconditions
    [where s = "talk_state four_messages []" and roomId = "''r1''" and uid = "''u3''"
       and env = env_down and now = 50 and today = 0 and newIds = demo_ids] m
  have a: "generate_resolutions_route env_down (talk_state four_messages []) 50 0 demo_ids ''u3'' ''r1''
       = (talk_state four_messages [], Status 403 ''Access denied'', [])"
    by blast
  from generate_route_preconditions
    [where s = ?full and roomId = "''r1''" and uid = "''u1''"
       and env = env_down and now = 150 and today = 100 and newIds = demo_ids] m l
  have b: "generate_resolutions_route env_down ?full 150 100 demo_ids ''u1'' ''r1''
       = (?full, Status 429
            ''Daily resolution limit reached. Upgrade to PRO for unlimited resolutions.'', [])"
    by blast
  from generate_route_preconditions
    [where s = "talk_state three_messages []" and roomId = "''r1''" and uid = "''u1''"
       and env = env_down and now = 50 and today = 0 and newIds = demo_ids] m l n3
  have c: "fst (snd (generate_resolutions_route env_down (talk_state three_messages []) 50 0 demo_ids
                  ''u1'' ''r1''))
       = Status 400 ''Need at least 4 messages to generate resolutions''"
    by simp
  from generate_route_preconditions
    [where s = "talk_state four_messages []" and roomId = "''r1''" and uid = "''u1''"
       and env = env_down and now = 50 and today = 0 and newIds = demo_ids] m l n4 calls
  have d: "fst (snd (generate_resolutions_route env_down (talk_state four_messages []) 50 0 demo_ids
                  ''u1'' ''r1''))
       \<noteq> Status 400 ''Need at least 4 messages to generate resolutions''"
    "length (snd (snd (generate_resolutions_route env_down (talk_state four_messages []) 50 0
                          demo_ids ''u1'' ''r1''))) = 2"
    by simp_all
  from m l n3 n4 a b c d show ?thesis by blast
qed

theorem generateResolutions_retry_then_fallback_witness:
  "hf env_down = Some (\<lambda>call. None)
   \<and> generateResolutions env_down (map message_or_transcript four_messages)
       = ([first_call (buildResolutionPrompt (join_lines (map message_or_transcript four_messages))),
           retry_call (buildResolutionPrompt (join_lines (map message_or_transcript four_messages)))],
          Inr generateFallbackResolutions)
   \<and> temperature (retry_call (buildResolutionPrompt (join_lines (map message_or_transcript four_messages))))
       < temperature (first_call (buildResolutionPrompt (join_lines (map message_or_transcript four_messages))))
   \<and> ensureRoomMember (talk_state four_messages []) ''r1'' ''u1''
   \<and> allowed (fst (checkResolutionLimit (talk_state four_messages []) 0 ''u1''))
   \<and> 4 \<le> length (getRoomMessages (talk_state four_messages []) ''r1'')
   \<and> fallback_path (\<lambda>call. None) (JSON_parse env_down) (room_prompt (talk_state four_messages []) ''r1'')
   \<and> fresh_ids (talk_state four_messages []) demo_ids 3
   \<and> (\<exists>saved. fst (snd (generate_resolutions_route env_down (talk_state four_messages []) 50 0
                            demo_ids ''u1'' ''r1'')) = Json saved
         \<and> map title saved =
             [''Compromise Solution'', ''Time-Based Trial'', ''Alternative Perspective''])"
proof -
  let ?s = "talk_state four_messages []"
  let ?msgs = "map message_or_transcript four_messages"
  have hf: "hf env_down = Some (\<lambda>call. None)" by (simp add: env_down_def)
  have at: "attempt (\<lambda>call. None) parse call = Threw" for parse call
    by (simp add: attempt_def)
  have m: "ensureRoomMember ?s ''r1'' ''u1''" by (rule talk_member)
  have l: "allowed (fst (checkResolutionLimit ?s 0 ''u1''))" by (rule talk_limit)
  have n: "4 \<le> length (getRoomMessages ?s ''r1'')" by (simp add: talk_messages talk_lengths)
  have fb: "fallback_path (\<lambda>call. None) (JSON_parse env_down) (room_prompt ?s ''r1'')"
    by (rule fallback_path_down)
  have fr: "fresh_ids ?s demo_ids 3" by (rule talk_fresh)
  note t = generateResolutions_retry_then_fallback
    [OF hf, where msgs = ?msgs and s = ?s and roomId = "''r1''" and uid = "''u1''" and today = 0
       and newIds = demo_ids and now = 50]
  from t at have g: "generateResolutions env_down ?msgs
       = ([first_call (buildResolutionPrompt (join_lines ?msgs)),
           retry_call (buildResolutionPrompt (join_lines ?msgs))],
          Inr generateFallbackResolutions)"
    by simp
  from t have tp: "temperature (retry_call (buildResolutionPrompt (join_lines ?msgs)))
       < temperature (first_call (buildResolutionPrompt (join_lines ?msgs)))"
    by blast
  from t m l n fb fr
  have r: "\<exists>saved. fst (snd (generate_resolutions_route env_down ?s 50 0 demo_ids ''u1'' ''r1''))
        = Json saved
         \<and> map title saved =
             [''Compromise Solution'', ''Time-Based Trial'', ''Alternative Perspective'']"
    by blast
  from hf g tp m l n fb fr r show ?thesis by blast
qed

subsection \<open>The join handshake\<close>

lemma refuse_eq:
  "refuse c s m =
     (c, if readyState s (conn_ws c) = OPEN
         then s\<lparr>sent := sent s @ [(conn_ws c, ErrorEvent m)],
                readyState := (readyState s)(conn_ws c := CLOSING)\<rparr>
         else s)"
  by (simp add: refuse_def ws_send_def ws_close_def)

lemma join_room_mismatch:
  "requestedUserId \<noteq> authenticatedUserId c \<Longrightarrow>
     join_room c s roomId requestedUserId name = refuse c s ''User ID mismatch''"
  by (simp add: join_room_def)

text \<open>
  C6. A \<^verbatim>\<open>join_room\<close> whose user id is not the authenticated one registers nothing: the
  connection keeps its \<^verbatim>\<open>currentRoomId\<close>, the registry and the tables are as they were,
  the socket is no longer open, and the only thing that may have been written is the
  error event to the refused socket itself (so no \<^verbatim>\<open>user_joined\<close>).
\<close>

theorem join_room_identity_mismatch:
  assumes "requestedUserId \<noteq> authenticatedUserId c"
  shows "fst (on_message c s (JoinRoom roomId requestedUserId name)) = c
       \<and> snd (on_message c s (JoinRoom roomId requestedUserId name)) =
           (if readyState s (conn_ws c) = OPEN
            then s\<lparr>sent := sent s @ [(conn_ws c, ErrorEvent ''User ID mismatch'')],
                   readyState := (readyState s)(conn_ws c := CLOSING)\<rparr>
            else s)
       \<and> roomConnections (snd (on_message c s (JoinRoom roomId requestedUserId name)))
           = roomConnections s
       \<and> readyState (snd (on_message c s (JoinRoom roomId requestedUserId name))) (conn_ws c)
           \<noteq> OPEN
       \<and> (\<forall>x \<in> set (sent (snd (on_message c s (JoinRoom roomId requestedUserId name)))).
            x \<in> set (sent s) \<or> x = (conn_ws c, ErrorEvent ''User ID mismatch''))"
proof -
  let ?w = "conn_ws c"
  let ?s' = "if readyState s ?w = OPEN
            then s\<lparr>sent := sent s @ [(?w, ErrorEvent ''User ID mismatch'')],
                   readyState := (readyState s)(?w := CLOSING)\<rparr>
            else s"
  have eq: "on_message c s (JoinRoom roomId requestedUserId name) = (c, ?s')"
    using join_room_mismatch [OF assms]
    by (simp only: on_message_def ws_event.case refuse_eq)
  have 1: "roomConnections ?s' = roomConnections s" by simp
  have 2: "readyState ?s' ?w \<noteq> OPEN" by simp
  have 3: "\<forall>x \<in> set (sent ?s'). x \<in> set (sent s) \<or> x = (?w, ErrorEvent ''User ID mismatch'')"
    by simp
  show ?thesis unfolding eq fst_conv snd_conv using 1 2 3 by blast
qed

theorem join_room_identity_mismatch_witness:
  "''u1'' \<noteq> authenticatedUserId conn_u3
   \<and> fst (on_message conn_u3 (demo_state []) (JoinRoom ''r1'' ''u1'' ''Ann'')) = conn_u3
   \<and> roomConnections (snd (on_message conn_u3 (demo_state []) (JoinRoom ''r1'' ''u1'' ''Ann'')))
       = roomConnections (demo_state [])
   \<and> readyState (snd (on_message conn_u3 (demo_state []) (JoinRoom ''r1'' ''u1'' ''Ann''))) 3
       = CLOSING
   \<and> sent (snd (on_message conn_u3 (demo_state []) (JoinRoom ''r1'' ''u1'' ''Ann'')))
       = [(3, ErrorEvent ''User ID mismatch'')]"
proof -
  have h: "''u1'' \<noteq> authenticatedUserId conn_u3" by (simp add: conn_u3_def)
  have o: "readyState (demo_state []) 3 = OPEN" "sent (demo_state []) = []"
    "conn_ws conn_u3 = 3"
    by (simp_all add: demo_state_def conn_u3_def)
  note t = join_room_identity_mismatch [OF h, of "demo_state []" "''r1''" "''Ann''"]
  note e = t [THEN conjunct1]
  note r = t [THEN conjunct2, THEN conjunct2, THEN conjunct1]
  have s: "snd (on_message conn_u3 (demo_state []) (JoinRoom ''r1'' ''u1'' ''Ann'')) =
       (demo_state [])\<lparr>sent := sent (demo_state []) @ [(3, ErrorEvent ''User ID mismatch'')],
                   readyState := (readyState (demo_state []))(3 := CLOSING)\<rparr>"
    using t [THEN conjunct2, THEN conjunct1] by (simp only: o simp_thms if_True)
  have "readyState (snd (on_message conn_u3 (demo_state []) (JoinRoom ''r1'' ''u1'' ''Ann''))) 3
       = CLOSING"
    unfolding s by simp
  moreover have "sent (snd (on_message conn_u3 (demo_state []) (JoinRoom ''r1'' ''u1'' ''Ann'')))
       = [(3, ErrorEvent ''User ID mismatch'')]"
    unfolding s using o(2) by simp
  ultimately show ?thesis using h e r by blast
qed

subsection \<open>Leaving a room and closing a connection\<close>

lemma on_close_leave_room: "on_close c s = leave_room c s"
  by (simp add: on_close_def leave_room_def)

lemma leave_room_idle:
  "falsy (currentRoomId c) \<or> authenticatedUserId c = [] \<Longrightarrow> leave_room c s = s"
  by (simp add: leave_room_def)

lemma leave_room_no_entry:
  "map_of (roomConnections s) (the (currentRoomId c)) = None \<Longrightarrow> leave_room c s = s"
  by (simp add: leave_room_def)

lemma leave_room_entry:
  assumes "\<not> falsy (currentRoomId c)" "authenticatedUserId c \<noteq> []"
    and "map_of (roomConnections s) (the (currentRoomId c)) = Some roomClients"
  shows "leave_room c s =
     s\<lparr>roomConnections :=
          (if AList.delete (authenticatedUserId c) roomClients = []
           then AList.delete (the (currentRoomId c)) (roomConnections s)
           else AList.update (the (currentRoomId c))
                  (AList.delete (authenticatedUserId c) roomClients) (roomConnections s)),
        sent := sent s @
          deliveries s (AList.delete (authenticatedUserId c) roomClients)
            (UserLeft (authenticatedUserId c)) None\<rparr>"
  using assms by (simp add: leave_room_def Let_def AList.delete_update_same)

lemma registered_Some:
  "map_of (roomConnections s) roomId = Some roomClients \<Longrightarrow> registered s roomId = roomClients"
  by (simp add: registered_def)

lemma registered_None:
  "map_of (roomConnections s) roomId = None \<Longrightarrow> registered s roomId = []"
  by (simp add: registered_def)

lemma deliveries_Nil [simp]: "deliveries s [] ev x = []"
  by (simp add: deliveries_def)

lemma registry_ok_entry:
  "registry_ok s \<Longrightarrow> map_of (roomConnections s) roomId = Some roomClients \<Longrightarrow> roomClients \<noteq> []"
  by (auto simp: registry_ok_def list_all_iff dest: map_of_SomeD)

lemma leave_room_absent:
  assumes ok: "registry_ok s" and absent: "\<not> is_registered c s"
  shows "roomConnections (leave_room c s) = roomConnections s"
proof (cases "falsy (currentRoomId c) \<or> authenticatedUserId c = []")
  case True
  then show ?thesis by (simp add: leave_room_idle)
next
  case False
  then obtain roomId where rid: "currentRoomId c = Some roomId"
    by (auto simp: falsy_def split: option.splits)
  show ?thesis
  proof (cases "map_of (roomConnections s) roomId")
    case None
    with rid show ?thesis by (simp add: leave_room_no_entry)
  next
    case (Some roomClients)
    with absent rid have "authenticatedUserId c \<notin> fst ` set roomClients"
      by (simp add: is_registered_def registered_Some)
    then have same: "AList.delete (authenticatedUserId c) roomClients = roomClients"
      by (rule AList.delete_id)
    have ne: "roomClients \<noteq> []" using ok Some by (rule registry_ok_entry)
    have "AList.update roomId roomClients (roomConnections s) = roomConnections s"
      using Some by (rule AList.update_triv)
    with False rid Some same ne show ?thesis
      by (simp add: leave_room_entry)
  qed
qed

lemma leave_room_quiet:
  assumes ok: "registry_ok s" and none: "registered s (the (currentRoomId c)) = []"
  shows "leave_room c s = s"
proof (cases "map_of (roomConnections s) (the (currentRoomId c))")
  case None
  then show ?thesis by (rule leave_room_no_entry)
next
  case (Some roomClients)
  with none have "roomClients = []" by (simp add: registered_Some)
  with registry_ok_entry [OF ok Some] show ?thesis by simp
qed

lemma leave_room_frame:
  "leave_room c s =
     s\<lparr>roomConnections := roomConnections (leave_room c s), sent := sent (leave_room c s)\<rparr>"
proof (cases "falsy (currentRoomId c) \<or> authenticatedUserId c = []")
  case True
  then show ?thesis by (simp add: leave_room_idle)
next
  case False
  show ?thesis
  proof (cases "map_of (roomConnections s) (the (currentRoomId c))")
    case None
    then show ?thesis by (simp add: leave_room_no_entry)
  next
    case (Some roomClients)
    with False show ?thesis by (simp add: leave_room_entry)
  qed
qed

lemma leave_room_twice:
  "roomConnections (leave_room c (leave_room c s)) = roomConnections (leave_room c s)"
proof (cases "falsy (currentRoomId c) \<or> authenticatedUserId c = []")
  case True
  then show ?thesis by (simp add: leave_room_idle)
next
  case False
  let ?rid = "the (currentRoomId c)" and ?uid = "authenticatedUserId c"
  show ?thesis
  proof (cases "map_of (roomConnections s) ?rid")
    case None
    then show ?thesis by (simp add: leave_room_no_entry)
  next
    case (Some roomClients)
    let ?rem = "AList.delete ?uid roomClients"
    note first = leave_room_entry [OF _ _ Some]
    show ?thesis
    proof (cases "?rem = []")
      case True
      with False first have "roomConnections (leave_room c s) = AList.delete ?rid (roomConnections s)"
        by simp
      then have "map_of (roomConnections (leave_room c s)) ?rid = None"
        by (simp add: AList.delete_conv')
      then show ?thesis by (simp add: leave_room_no_entry)
    next
      case rem: False
      with False first have conns: "roomConnections (leave_room c s) =
          AList.update ?rid ?rem (roomConnections s)"
        by simp
      then have entry: "map_of (roomConnections (leave_room c s)) ?rid = Some ?rem"
        by (simp add: AList.update_conv')
      have idem: "AList.delete ?uid ?rem = ?rem" by (rule AList.delete_idem)
      from False rem conns idem show ?thesis
        by (simp add: leave_room_entry [OF _ _ entry])
    qed
  qed
qed

lemma registry_ok_delete:
  "list_all (\<lambda>(roomId, roomClients). roomClients \<noteq> []) conns \<Longrightarrow>
     list_all (\<lambda>(roomId, roomClients). roomClients \<noteq> []) (AList.delete k conns)"
  by (auto simp: list_all_iff AList.delete_eq)

lemma registry_ok_update:
  "list_all (\<lambda>(roomId, roomClients). roomClients \<noteq> []) conns \<Longrightarrow> v \<noteq> [] \<Longrightarrow>
     list_all (\<lambda>(roomId, roomClients). roomClients \<noteq> []) (AList.update k v conns)"
  by (induction conns) auto

lemma leave_room_registry_ok:
  assumes "registry_ok s"
  shows "registry_ok (leave_room c s)"
proof (cases "falsy (currentRoomId c) \<or> authenticatedUserId c = []")
  case True
  with assms show ?thesis by (simp add: leave_room_idle)
next
  case False
  show ?thesis
  proof (cases "map_of (roomConnections s) (the (currentRoomId c))")
    case None
    with assms show ?thesis by (simp add: leave_room_no_entry)
  next
    case (Some roomClients)
    with False assms show ?thesis
      by (simp add: leave_room_entry registry_ok_def registry_ok_delete registry_ok_update)
  qed
qed

text \<open>
  C9 (as amended). The close handler does what \<^verbatim>\<open>leave_room\<close> does, and touches only the
  registry and the sockets. Unregistering a pair that has no entry leaves the registry as
  it was (the registry having no empty room, which unregistering preserves), and so does
  unregistering a second time. Nothing at all changes when the connection never joined a
  room, or when no client is registered for its room.
\<close>

theorem unregister_absent_pair:
  "on_close c s = leave_room c s
   \<and> leave_room c s =
       s\<lparr>roomConnections := roomConnections (leave_room c s), sent := sent (leave_room c s)\<rparr>
   \<and> (registry_ok s \<and> \<not> is_registered c s \<longrightarrow>
        roomConnections (leave_room c s) = roomConnections s)
   \<and> roomConnections (leave_room c (leave_room c s)) = roomConnections (leave_room c s)
   \<and> (currentRoomId c = None \<longrightarrow> leave_room c s = s)
   \<and> (registry_ok s \<and> registered s (the (currentRoomId c)) = [] \<longrightarrow> leave_room c s = s)
   \<and> (registry_ok s \<longrightarrow> registry_ok (leave_room c s))"
proof (intro conjI impI)
  show "on_close c s = leave_room c s" by (rule on_close_leave_room)
  show "leave_room c s =
       s\<lparr>roomConnections := roomConnections (leave_room c s), sent := sent (leave_room c s)\<rparr>"
    by (rule leave_room_frame)
  show "roomConnections (leave_room c (leave_room c s)) = roomConnections (leave_room c s)"
    by (rule leave_room_twice)
next
  assume "registry_ok s \<and> \<not> is_registered c s"
  then show "roomConnections (leave_room c s) = roomConnections s"
    by (simp add: leave_room_absent)
next
  assume "currentRoomId c = None"
  then show "leave_room c s = s" by (simp add: leave_room_idle falsy_def)
next
  assume "registry_ok s \<and> registered s (the (currentRoomId c)) = []"
  then show "leave_room c s = s" by (simp add: leave_room_quiet)
next
  assume "registry_ok s"
  then show "registry_ok (leave_room c s)" by (rule leave_room_registry_ok)
qed

lemma demo_leave_u1:
  "leave_room conn_u1 (demo_state []) =
     (demo_state [])\<lparr>roomConnections := [(''r1'', [(''u2'', \<lparr>ws = 2, userName = ''Bob''\<rparr>)])],
                     sent := [(2, UserLeft ''u1'')]\<rparr>"
  by (simp add: leave_room_def conn_u1_def demo_state_def falsy_def deliveries_def Let_def
      AList.delete_eq)

text \<open>
  The claim as stated fails: \<open>u1\<close> leaves room \<open>r1\<close> while \<open>u2\<close> is connected, and then the
  socket of \<open>u1\<close> closes. The pair is gone from the registry after the first step, and the
  second step sends \<^verbatim>\<open>user_left\<close> to \<open>u2\<close> once more.
\<close>

theorem second_unregister_counterexample:
  "is_registered conn_u1 (demo_state [])
   \<and> sent (snd (on_message conn_u1 (demo_state []) (LeaveRoom ''r1'' ''u1'')))
       = [(2, UserLeft ''u1'')]
   \<and> \<not> is_registered conn_u1 (snd (on_message conn_u1 (demo_state []) (LeaveRoom ''r1'' ''u1'')))
   \<and> sent (on_close conn_u1 (snd (on_message conn_u1 (demo_state []) (LeaveRoom ''r1'' ''u1''))))
       = [(2, UserLeft ''u1''), (2, UserLeft ''u1'')]"
proof -
  have m: "snd (on_message conn_u1 (demo_state []) (LeaveRoom ''r1'' ''u1''))
      = leave_room conn_u1 (demo_state [])"
    by (simp add: on_message_def)
  have 1: "is_registered conn_u1 (demo_state [])"
    by (simp add: is_registered_def registered_def conn_u1_def demo_state_def)
  have 2: "sent (leave_room conn_u1 (demo_state [])) = [(2, UserLeft ''u1'')]"
    by (simp add: demo_leave_u1)
  have 3: "\<not> is_registered conn_u1 (leave_room conn_u1 (demo_state []))"
    unfolding demo_leave_u1 by (simp add: is_registered_def registered_def conn_u1_def)
  have 4: "sent (on_close conn_u1 (leave_room conn_u1 (demo_state [])))
      = [(2, UserLeft ''u1''), (2, UserLeft ''u1'')]"
    unfolding demo_leave_u1
    by (simp add: on_close_def conn_u1_def demo_state_def falsy_def deliveries_def Let_def
      AList.delete_eq)
  from 1 2 3 4 show ?thesis unfolding m by blast
qed

theorem unregister_absent_pair_witness:
  "registry_ok (demo_state [])
   \<and> \<not> is_registered conn_u3_stale (demo_state [])
   \<and> roomConnections (leave_room conn_u3_stale (demo_state [])) = roomConnections (demo_state [])
   \<and> on_close conn_u3_stale (demo_state []) = leave_room conn_u3_stale (demo_state [])
   \<and> currentRoomId conn_u3 = None
   \<and> leave_room conn_u3 (demo_state []) = demo_state []
   \<and> registry_ok solo_state
   \<and> registry_ok (leave_room conn_u1 solo_state)
   \<and> registered (leave_room conn_u1 solo_state) (the (currentRoomId conn_u1)) = []
   \<and> leave_room conn_u1 (leave_room conn_u1 solo_state) = leave_room conn_u1 solo_state"
proof -
  have ok: "registry_ok (demo_state [])"
    by (simp add: registry_ok_def demo_state_def)
  have ab: "\<not> is_registered conn_u3_stale (demo_state [])"
    by (simp add: is_registered_def registered_def conn_u3_stale_def demo_state_def)
  have never: "currentRoomId conn_u3 = None" by (simp add: conn_u3_def)
  have oks: "registry_ok solo_state"
    by (simp add: registry_ok_def solo_state_def)
  have solo: "roomConnections (leave_room conn_u1 solo_state) = []"
    by (simp add: leave_room_def conn_u1_def solo_state_def demo_state_def falsy_def Let_def
      AList.delete_eq)
  then have gone: "registered (leave_room conn_u1 solo_state) (the (currentRoomId conn_u1)) = []"
    by (simp add: registered_def)
  note t1 = unregister_absent_pair [of conn_u3_stale "demo_state []"]
  note t2 = unregister_absent_pair [of conn_u3 "demo_state []"]
  note t3 = unregister_absent_pair [of conn_u1 "leave_room conn_u1 solo_state"]
  note t4 = unregister_absent_pair [of conn_u1 solo_state]
  from t1 ok ab have a: "roomConnections (leave_room conn_u3_stale (demo_state [])) = roomConnections (demo_state [])"
    "on_close conn_u3_stale (demo_state []) = leave_room conn_u3_stale (demo_state [])"
    by blast+
  from t2 never have b: "leave_room conn_u3 (demo_state []) = demo_state []" by blast
  from t4 oks have c: "registry_ok (leave_room conn_u1 solo_state)" by blast
  from t3 c gone have d: "leave_room conn_u1 (leave_room conn_u1 solo_state) = leave_room conn_u1 solo_state"
    by blast
  from ok ab a never b oks c gone d show ?thesis by blast
qed

subsection \<open>What each request does to the rooms and users tables\<close>

lemma createMessage_frame:
  "createMessage s now newId roomId sender txt tr voice url = Inr (s1, m) \<Longrightarrow>
     users s1 = users s \<and> rooms s1 = rooms s"
  by (auto simp: createMessage_def Let_def split: if_splits)

lemma createResolutions_frame:
  "createResolutions env s now newIds l = Inr (s1, saved) \<Longrightarrow>
     users s1 = users s \<and> rooms s1 = rooms s"
  using createResolutions_Inr(1) [of env s now newIds l s1 saved] by simp

lemma post_message_route_frame:
  "users (fst (post_message_route s now newId uid roomId b)) = users s \<and>
   rooms (fst (post_message_route s now newId uid roomId b)) = rooms s"
  by (auto simp: post_message_route_def split: sum.splits dest: createMessage_frame)

lemma transcribe_route_frame:
  "users (fst (transcribe_route s now newId uid roomId audioFile)) = users s \<and>
   rooms (fst (transcribe_route s now newId uid roomId audioFile)) = rooms s"
  by (auto simp: transcribe_route_def split: sum.splits dest: createMessage_frame)

lemma generate_and_save_frame:
  "users (fst (generate_and_save env s1 now newIds uid roomId)) = users s1 \<and>
   rooms (fst (generate_and_save env s1 now newIds uid roomId)) = rooms s1"
  by (auto simp: generate_and_save_def split_beta split: sum.splits dest: createResolutions_frame)

lemma generate_route_frame:
  "users (fst (generate_resolutions_route env s now today newIds uid roomId)) = users s \<and>
   rooms (fst (generate_resolutions_route env s now today newIds uid roomId)) = rooms s"
  by (simp add: generate_route_unfold generate_and_save_frame)

lemma leave_room_tables:
  "users (leave_room c s) = users s" "rooms (leave_room c s) = rooms s"
  by (subst leave_room_frame, simp)+

lemma on_message_frame:
  "users (snd (on_message c s msg)) = users s \<and> rooms (snd (on_message c s msg)) = rooms s"
proof (cases msg)
  case (JoinRoom roomId uid name)
  then show ?thesis
    by (simp add: on_message_def join_room_def refuse_eq Let_def split: option.splits)
next
  case (LeaveRoom roomId uid)
  then show ?thesis
    by (simp add: on_message_def leave_room_tables)
qed (simp_all add: on_message_def)

lemma createRoom_Inr:
  assumes "createRoom s now newId c creator p1 p2 st = Inr (s1, r)"
  shows "s1 = s\<lparr>rooms := rooms s @ [r]\<rparr>"
    and "r = \<lparr>room_id = newId, code = c, createdBy = creator, participant1Id = p1,
              participant2Id = p2, status = st, resolvedAt = None, createdAt = now\<rparr>"
    and "\<not> room_exists s newId" and "c \<notin> set (map code (rooms s))"
    and "user_exists s creator" and "length c \<le> 6"
  using assms by (auto simp: createRoom_def Let_def split: if_splits)

lemma create_room_route_step:
  "rooms_step s (fst (create_room_route s now newId c uid))"
proof (cases "createRoom s now newId c uid (Some uid) None ''active''")
  case (Inl e)
  then show ?thesis by (simp add: create_room_route_def rooms_step.same)
next
  case (Inr p)
  obtain s1 r where p: "p = (s1, r)" by (cases p)
  note c = createRoom_Inr [OF Inr [unfolded p]]
  have eq: "fst (create_room_route s now newId c uid) = s1"
    using Inr p by (simp add: create_room_route_def)
  have "users s1 = users s" "rooms s1 = rooms s @ [r]" using c(1) by simp_all
  moreover have "room_id r \<notin> set (map room_id (rooms s))" "code r \<notin> set (map code (rooms s))"
    "user_exists s (createdBy r)" "participant1Id r = Some (createdBy r)" "participant2Id r = None"
    using c(2-5) by (simp_all add: room_exists_def)
  ultimately show ?thesis unfolding eq by (rule rooms_step.created)
qed

lemma updateRoomParticipant_step:
  assumes "updateRoomParticipant s roomId pid = Inr s1"
  shows "rooms_step s s1"
proof -
  from assms obtain r0 where r0: "getRoomById s roomId = Some r0"
    by (auto simp: updateRoomParticipant_def split: option.splits)
  consider (one) "falsy (participant1Id r0)"
    | (two) "\<not> falsy (participant1Id r0)" "falsy (participant2Id r0) \<and> participant1Id r0 \<noteq> Some pid"
    | (none) "\<not> falsy (participant1Id r0)" "\<not> (falsy (participant2Id r0) \<and> participant1Id r0 \<noteq> Some pid)"
    by blast
  then show ?thesis
  proof cases
    case one
    with assms r0 have "user_exists s pid"
      and "s1 = update_rooms s roomId (\<lambda>r. r\<lparr>participant1Id := Some pid\<rparr>)"
      by (auto simp: updateRoomParticipant_def split: if_splits)
    then have "users s1 = users s"
      "rooms s1 = map (\<lambda>r. if room_id r = roomId then r\<lparr>participant1Id := Some pid\<rparr> else r) (rooms s)"
      by (simp_all add: update_rooms_def)
    with r0 one \<open>user_exists s pid\<close> show ?thesis by (auto intro: rooms_step.slot1)
  next
    case two
    with assms r0 have "user_exists s pid"
      and "s1 = update_rooms s roomId (\<lambda>r. r\<lparr>participant2Id := Some pid\<rparr>)"
      by (auto simp: updateRoomParticipant_def split: if_splits)
    then have "users s1 = users s"
      "rooms s1 = map (\<lambda>r. if room_id r = roomId then r\<lparr>participant2Id := Some pid\<rparr> else r) (rooms s)"
      by (simp_all add: update_rooms_def)
    with r0 two \<open>user_exists s pid\<close> show ?thesis by (auto intro: rooms_step.slot2)
  next
    case none
    with assms r0 have "s1 = s" by (auto simp: updateRoomParticipant_def split: if_splits)
    then show ?thesis by (simp add: rooms_step.same)
  qed
qed

lemma join_room_route_step: "rooms_step s (fst (join_room_route s uid c))"
proof (cases "getRoomByCode s c")
  case None
  then show ?thesis by (simp add: join_room_route_def rooms_step.same)
next
  case (Some r)
  show ?thesis
  proof (cases "updateRoomParticipant s (room_id r) uid")
    case (Inl e)
    with Some show ?thesis by (simp add: join_room_route_def rooms_step.same)
  next
    case (Inr s1)
    with Some have "fst (join_room_route s uid c) = s1" by (simp add: join_room_route_def)
    with updateRoomParticipant_step [OF Inr] show ?thesis by simp
  qed
qed

lemma vote_route_step: "rooms_step s (fst (vote_route s now newId date uid roomId resId))"
proof (cases "ensureRoomMember s roomId uid \<and> getUserVote s roomId uid = None")
  case False
  then have "fst (vote_route s now newId date uid roomId resId) = s"
    by (cases "ensureRoomMember s roomId uid"; cases "getUserVote s roomId uid")
      (simp_all add: vote_route_denied vote_route_voted)
  then show ?thesis by (simp add: rooms_step.same)
next
  case True
  show ?thesis
  proof (cases "createVote s now newId roomId resId uid")
    case (Inl e)
    with True show ?thesis by (simp add: vote_route_failed rooms_step.same)
  next
    case (Inr p)
    obtain s1 v1 where p: "p = (s1, v1)" by (cases p)
    have s1: "users s1 = users s" "rooms s1 = rooms s"
      using createVote_Inr(1) [OF Inr [unfolded p]] by simp_all
    from True Inr p have "vote_route s now newId date uid roomId resId =
     (let s2 = broadcastToRoom s1 roomId (VoteCast uid resId) None in
      if agreed (getRoomVotes s1 roomId)
      then (let s3 = updateRoomStatus s2 roomId ''resolved'' (Some date)
            in (broadcastToRoom s3 roomId (RoomResolved (getResolutionById s3 resId)) None, Json v1))
      else (s2, Json v1))"
      by (simp add: vote_route_success)
    then have u: "users (fst (vote_route s now newId date uid roomId resId)) = users s"
      and r: "rooms (fst (vote_route s now newId date uid roomId resId)) =
          (if agreed (getRoomVotes s1 roomId)
           then map (\<lambda>r. if room_id r = roomId
                         then r\<lparr>status := ''resolved'', resolvedAt := Some date\<rparr> else r) (rooms s)
           else rooms s)"
      using s1 by (simp_all add: Let_def updateRoomStatus_def update_rooms_def)
    show ?thesis
    proof (cases "agreed (getRoomVotes s1 roomId)")
      case True
      with r have "rooms (fst (vote_route s now newId date uid roomId resId)) =
          map (\<lambda>r. if room_id r = roomId
                    then r\<lparr>status := ''resolved'', resolvedAt := Some date\<rparr> else r) (rooms s)"
        by simp
      with u show ?thesis by (rule rooms_step.status)
    next
      case False
      with r u show ?thesis by (simp add: rooms_step.same)
    qed
  qed
qed

lemma handle_step: "rooms_step s (handle s q)"
proof (cases q)
  case (CreateRoom now newId c uid)
  then show ?thesis by (simp add: create_room_route_step)
next
  case (JoinByCode uid c)
  then show ?thesis by (simp add: join_room_route_step)
next
  case (GetRoom uid roomId)
  then show ?thesis by (simp add: get_room_route_def rooms_step.same split: option.splits)
next
  case (PostMessage now newId uid roomId b)
  then show ?thesis by (simp add: post_message_route_frame rooms_step.same)
next
  case (GetMessages uid roomId)
  then show ?thesis by (simp add: get_messages_route_def rooms_step.same)
next
  case (Transcribe now newId uid roomId audioFile)
  then show ?thesis by (simp add: transcribe_route_frame rooms_step.same)
next
  case (GenerateResolutions env now today newIds uid roomId)
  then show ?thesis by (simp add: generate_route_frame rooms_step.same)
next
  case (Vote now newId date uid roomId resId)
  then show ?thesis by (simp add: vote_route_step)
next
  case (SocketMessage c msg)
  then show ?thesis by (simp add: on_message_frame rooms_step.same)
next
  case (SocketClosed c)
  then show ?thesis by (simp add: on_close_leave_room leave_room_tables rooms_step.same)
qed

subsection \<open>Invariants of the rooms table\<close>

lemma find_append_found:
  "find P xs = Some x \<Longrightarrow> find P (xs @ ys) = Some x"
  by (induction xs) (auto split: if_splits)


lemma getRoomById_in_rooms:
  "getRoomById s i = Some r \<Longrightarrow> r \<in> set (rooms s) \<and> room_id r = i"
  unfolding getRoomById_def
  using find_key_in [of room_id i "rooms s" r] find_key_is [of room_id i "rooms s" r] by simp

lemma getRoomById_mapped:
  assumes "rooms s' = map (\<lambda>r. if room_id r = k then f r else r) (rooms s)"
    and "\<And>r. room_id (f r) = room_id r"
  shows "getRoomById s' i = map_option (\<lambda>r. if room_id r = k then f r else r) (getRoomById s i)"
  unfolding getRoomById_def assms(1)
  by (rule find_map_keep) (simp add: assms(2))


lemma ids_ok_room:
  "ids_ok s \<Longrightarrow> getRoomById s i = Some r \<Longrightarrow>
     participant1Id r \<noteq> Some [] \<and> participant2Id r \<noteq> Some []"
  by (auto simp: ids_ok_def list_all_iff dest!: getRoomById_in_rooms)

lemma ids_ok_user: "ids_ok s \<Longrightarrow> user_exists s u \<Longrightarrow> u \<noteq> []"
  by (fastforce simp: ids_ok_def user_exists_def)

lemma falsy_None: "x \<noteq> Some [] \<Longrightarrow> falsy x \<longleftrightarrow> x = None"
  by (cases x) (simp_all add: falsy_def)

lemma rooms_step_ids_ok:
  assumes "rooms_step s s'" "ids_ok s"
  shows "ids_ok s'"
  using assms
proof cases
  case same
  with assms(2) show ?thesis by (simp add: ids_ok_def)
next
  case (created r)
  with assms(2) ids_ok_user [OF assms(2) created(5)] show ?thesis
    by (simp add: ids_ok_def)
next
  case (slot1 roomId r0 pid)
  with assms(2) ids_ok_user [OF assms(2) slot1(4)] show ?thesis
    by (auto simp: ids_ok_def list_all_iff)
next
  case (slot2 roomId r0 pid)
  with assms(2) ids_ok_user [OF assms(2) slot2(6)] show ?thesis
    by (auto simp: ids_ok_def list_all_iff)
next
  case (status roomId st t)
  with assms(2) show ?thesis
    by (auto simp: ids_ok_def list_all_iff)
qed

lemma rooms_step_keys_ok:
  assumes "rooms_step s s'" "keys_ok s"
  shows "keys_ok s'"
proof -
  have keep: "room_id \<circ> (\<lambda>r. if room_id r = k then f r else r) = room_id"
    if "\<And>r. room_id (f r) = room_id r" for k and f :: "room \<Rightarrow> room"
    using that by (auto simp: fun_eq_iff)
  from assms show ?thesis
    by cases (simp_all add: keys_ok_def keep)
qed

lemma grows_refl: "grows p p"
  by (simp add: grows_def)

lemma grows_trans: "grows p q \<Longrightarrow> grows q r \<Longrightarrow> grows p r"
  by (auto simp: grows_def)

lemma rooms_step_grows:
  assumes "rooms_step s s'" "ids_ok s"
  shows "grows (slot_pair s i) (slot_pair s' i)"
  using assms(1)
proof cases
  case same
  then show ?thesis by (simp add: slot_pair_def getRoomById_def grows_refl)
next
  case (created r)
  show ?thesis
  proof (cases "getRoomById s i")
    case None
    then show ?thesis by (simp add: slot_pair_def grows_def)
  next
    case (Some x)
    then have "getRoomById s' i = Some x"
      unfolding getRoomById_def created(2) by (rule find_append_found)
    with Some show ?thesis by (simp add: slot_pair_def grows_refl)
  qed
next
  case (slot1 roomId r0 pid)
  note m = getRoomById_mapped [OF slot1(5), of i] 
  show ?thesis
  proof (cases "getRoomById s i")
    case None
    then show ?thesis by (simp add: slot_pair_def grows_def)
  next
    case (Some x)
    show ?thesis
    proof (cases "i = roomId")
      case True
      with Some slot1(2) have "x = r0" by simp
      with slot1(3) ids_ok_room [OF assms(2) Some] have "participant1Id x = None"
        by (simp add: falsy_None)
      with Some m show ?thesis by (simp add: slot_pair_def grows_def)
    next
      case False
      with getRoomById_in_rooms [OF Some] Some m show ?thesis
        by (simp add: slot_pair_def grows_refl)
    qed
  qed
next
  case (slot2 roomId r0 pid)
  note m = getRoomById_mapped [OF slot2(7), of i] 
  show ?thesis
  proof (cases "getRoomById s i")
    case None
    then show ?thesis by (simp add: slot_pair_def grows_def)
  next
    case (Some x)
    show ?thesis
    proof (cases "i = roomId")
      case True
      with Some slot2(2) have "x = r0" by simp
      with slot2(4) ids_ok_room [OF assms(2) Some] have "participant2Id x = None"
        by (simp add: falsy_None)
      with Some m show ?thesis by (simp add: slot_pair_def grows_def)
    next
      case False
      with getRoomById_in_rooms [OF Some] Some m show ?thesis
        by (simp add: slot_pair_def grows_refl)
    qed
  qed
next
  case (status roomId st t)
  note m = getRoomById_mapped [OF status(2), of i] 
  show ?thesis
    by (cases "getRoomById s i") (simp_all add: m slot_pair_def grows_def)
qed


subsection \<open>The slots along a sequence of requests\<close>

lemma trace_head: "s \<in> set (trace s reqs)"
  by (cases reqs) simp_all

lemma trace_invariant:
  assumes "P s" and "\<And>x q. P x \<Longrightarrow> P (handle x q)"
  shows "\<forall>x \<in> set (trace s reqs). P x"
  using assms(1)
proof (induction reqs arbitrary: s)
  case Nil
  then show ?case by simp
next
  case (Cons q qs)
  from Cons.prems have "P (handle s q)" by (rule assms(2))
  with Cons.IH Cons.prems show ?case by simp
qed

lemma trace_grows:
  assumes "ids_ok s"
  shows "\<forall>x \<in> set (trace s reqs). grows (slot_pair x i) (slot_pair (last (trace s reqs)) i)"
  using assms
proof (induction reqs arbitrary: s)
  case Nil
  then show ?case by (simp add: grows_refl)
next
  case (Cons q qs)
  let ?s1 = "handle s q"
  have step: "rooms_step s ?s1" by (rule handle_step)
  have ok1: "ids_ok ?s1" using step Cons.prems by (rule rooms_step_ids_ok)
  note ih = Cons.IH [OF ok1]
  have "grows (slot_pair s i) (slot_pair ?s1 i)" using step Cons.prems by (rule rooms_step_grows)
  moreover have "grows (slot_pair ?s1 i) (slot_pair (last (trace ?s1 qs)) i)"
    using ih trace_head [of ?s1 qs] by blast
  ultimately have "grows (slot_pair s i) (slot_pair (last (trace ?s1 qs)) i)"
    by (rule grows_trans)
  moreover have "last (trace s (q # qs)) = last (trace ?s1 qs)"
    using trace_head [of ?s1 qs] by auto
  ultimately show ?case using ih by simp
qed

lemma grows_slots: "grows (slot_pair x i) (slot_pair y i) \<Longrightarrow> slots x i \<subseteq> slots y i"
  by (cases "slot_pair x i"; cases "slot_pair y i") (auto simp: grows_def slots_def)

lemma card_slots: "card (slots s i) \<le> 2"
proof -
  have one: "card (set_option a) \<le> 1" for a :: "string option"
    by (cases a) simp_all
  have "card (set_option a \<union> set_option b) \<le> 2" for a b :: "string option"
    using card_Un_le [of "set_option a" "set_option b"] one [of a] one [of b] by linarith
  then show ?thesis by (simp add: slots_def)
qed

lemma slots_ever:
  assumes "ids_ok s"
  shows "card (\<Union>x \<in> set (trace s reqs). slots x i) \<le> 2"
proof -
  let ?end = "last (trace s reqs)"
  have "(\<Union>x \<in> set (trace s reqs). slots x i) \<subseteq> slots ?end i"
    using trace_grows [OF assms, where reqs = reqs and i = i] grows_slots by blast
  moreover have "finite (slots ?end i)" by (simp add: slots_def)
  ultimately have "card (\<Union>x \<in> set (trace s reqs). slots x i) \<le> card (slots ?end i)"
    by (simp add: card_mono)
  with card_slots [of ?end i] show ?thesis by simp
qed

subsection \<open>Assigning a participant\<close>



subsection \<open>The creator holds slot 1\<close>





subsection \<open>Joining a full room\<close>













subsection \<open>The votes table along a sequence of requests\<close>

lemma create_room_route_votes: "votes (fst (create_room_route s now newId c uid)) = votes s"
  by (auto simp: create_room_route_def split: sum.splits dest: createRoom_Inr(1))

lemma updateRoomParticipant_votes:
  "updateRoomParticipant s roomId pid = Inr s1 \<Longrightarrow> votes s1 = votes s"
  by (auto simp: updateRoomParticipant_def split: option.splits if_splits)

lemma join_room_route_votes: "votes (fst (join_room_route s uid c)) = votes s"
  by (auto simp: join_room_route_def split: option.splits sum.splits
      dest: updateRoomParticipant_votes)

lemma createMessage_votes:
  "createMessage s now newId roomId sender txt tr voice url = Inr (s1, m) \<Longrightarrow> votes s1 = votes s"
  by (auto simp: createMessage_def Let_def split: if_splits)

lemma post_message_route_votes:
  "votes (fst (post_message_route s now newId uid roomId b)) = votes s"
  by (auto simp: post_message_route_def split: sum.splits dest: createMessage_votes)

lemma transcribe_route_votes:
  "votes (fst (transcribe_route s now newId uid roomId audioFile)) = votes s"
  by (auto simp: transcribe_route_def split: sum.splits dest: createMessage_votes)

lemma generate_and_save_votes:
  "votes (fst (generate_and_save env s1 now newIds uid roomId)) = votes s1"
  by (auto simp: generate_and_save_def split_beta split: sum.splits dest: createResolutions_Inr(1))

lemma generate_route_votes:
  "votes (fst (generate_resolutions_route env s now today newIds uid roomId)) = votes s"
  by (simp add: generate_route_unfold generate_and_save_votes)

lemma on_message_votes: "votes (snd (on_message c s msg)) = votes s"
proof (cases msg)
  case (JoinRoom roomId uid name)
  then show ?thesis
    by (simp add: on_message_def join_room_def refuse_eq Let_def split: option.splits)
next
  case (LeaveRoom roomId uid)
  have "votes (leave_room c s) = votes s" by (subst leave_room_frame) simp
  with LeaveRoom show ?thesis by (simp add: on_message_def)
qed (simp_all add: on_message_def)

lemma on_close_votes: "votes (on_close c s) = votes s"
  unfolding on_close_leave_room by (subst leave_room_frame) simp

lemma handle_votes:
  "votes (handle s q) = votes s \<or>
   (\<exists>v. votes (handle s q) = votes s @ [v] \<and> getUserVote s (vote_roomId v) (userId v) = None)"
proof (cases q)
  case (Vote now newId date uid roomId resId)
  with vote_route_votes [of s now newId date uid roomId resId] show ?thesis by auto
qed (simp_all add: create_room_route_votes join_room_route_votes get_room_route_def
    post_message_route_votes get_messages_route_def transcribe_route_votes generate_route_votes
    on_message_votes on_close_votes split: option.splits)

lemma handle_one_vote_each: "one_vote_each s \<Longrightarrow> one_vote_each (handle s q)"
  using handle_votes [of s q] getUserVote_None
  by (auto simp: one_vote_each_def)

lemma trace_votes:
  "\<forall>x \<in> set (trace s reqs). \<exists>vs. votes x = votes s @ vs"
proof (induction reqs arbitrary: s)
  case Nil
  then show ?case by simp
next
  case (Cons q qs)
  from handle_votes [of s q] obtain ws where ws: "votes (handle s q) = votes s @ ws" by auto
  have "\<exists>vs. votes x = votes s @ vs" if "x \<in> set (trace (handle s q) qs)" for x
  proof -
    from Cons.IH that obtain vs where "votes x = votes (handle s q) @ vs" by blast
    with ws show ?thesis by simp
  qed
  then show ?case by simp
qed

lemma trace_one_vote_each:
  "one_vote_each s \<Longrightarrow> \<forall>x \<in> set (trace s reqs). one_vote_each x"
  by (rule trace_invariant) (simp_all add: handle_one_vote_each)

subsection \<open>The registry along a sequence of requests\<close>

lemma create_room_route_registry:
  "roomConnections (fst (create_room_route s now newId c uid)) = roomConnections s"
  by (auto simp: create_room_route_def split: sum.splits dest: createRoom_Inr(1))

lemma updateRoomParticipant_registry:
  "updateRoomParticipant s roomId pid = Inr s1 \<Longrightarrow> roomConnections s1 = roomConnections s"
  by (auto simp: updateRoomParticipant_def split: option.splits if_splits)

lemma join_room_route_registry:
  "roomConnections (fst (join_room_route s uid c)) = roomConnections s"
  by (auto simp: join_room_route_def split: option.splits sum.splits
      dest: updateRoomParticipant_registry)

lemma createMessage_registry:
  "createMessage s now newId roomId sender txt tr voice url = Inr (s1, m) \<Longrightarrow>
     roomConnections s1 = roomConnections s"
  by (auto simp: createMessage_def Let_def split: if_splits)

lemma post_message_route_registry:
  "roomConnections (fst (post_message_route s now newId uid roomId b)) = roomConnections s"
  by (auto simp: post_message_route_def split: sum.splits dest: createMessage_registry)

lemma transcribe_route_registry:
  "roomConnections (fst (transcribe_route s now newId uid roomId audioFile)) = roomConnections s"
  by (auto simp: transcribe_route_def split: sum.splits dest: createMessage_registry)

lemma generate_and_save_registry:
  "roomConnections (fst (generate_and_save env s1 now newIds uid roomId)) = roomConnections s1"
  by (auto simp: generate_and_save_def split_beta split: sum.splits dest: createResolutions_Inr(1))

lemma generate_route_registry:
  "roomConnections (fst (generate_resolutions_route env s now today newIds uid roomId))
     = roomConnections s"
  by (simp add: generate_route_unfold generate_and_save_registry)

lemma vote_route_registry:
  "roomConnections (fst (vote_route s now newId date uid roomId resId)) = roomConnections s"
proof (cases "ensureRoomMember s roomId uid")
  case False
  then show ?thesis by (simp add: vote_route_denied)
next
  case mem: True
  show ?thesis
  proof (cases "getUserVote s roomId uid")
    case (Some x)
    with mem show ?thesis by (simp add: vote_route_voted)
  next
    case None
    show ?thesis
    proof (cases "createVote s now newId roomId resId uid")
      case (Inl e)
      with mem None show ?thesis by (simp add: vote_route_failed)
    next
      case (Inr p)
      obtain s1 v1 where p: "p = (s1, v1)" by (cases p)
      have "roomConnections s1 = roomConnections s"
        using createVote_Inr(1) [OF Inr [unfolded p]] by simp
      then show ?thesis
        unfolding vote_route_success [OF mem None Inr [unfolded p]]
        by (simp add: Let_def updateRoomStatus_def)
    qed
  qed
qed

lemma join_room_registry_ok:
  assumes "registry_ok s"
  shows "registry_ok (snd (join_room c s roomId uid name))"
proof -
  have upd: "registry_ok (s\<lparr>roomConnections := AList.update k v conns, sent := out\<rparr>)"
    if "list_all (\<lambda>(roomId, roomClients). roomClients \<noteq> []) conns" "v \<noteq> []" for k v conns out
    using that by (simp add: registry_ok_def registry_ok_update)
  have base: "list_all (\<lambda>(roomId, roomClients). roomClients \<noteq> []) (roomConnections s)"
    using assms by (simp add: registry_ok_def)
  have kept: "registry_ok (snd (refuse c s m))" for m
    using assms by (simp add: refuse_eq registry_ok_def)
  show ?thesis
  proof (cases "uid \<noteq> authenticatedUserId c")
    case True
    then show ?thesis by (simp add: join_room_def kept)
  next
    case same: False
    show ?thesis
    proof (cases "getRoomById s roomId")
      case None
      with same show ?thesis by (simp add: join_room_def kept)
    next
      case (Some r)
      show ?thesis
      proof (cases "createdBy r = authenticatedUserId c \<or>
                   participant1Id r = Some (authenticatedUserId c) \<or>
                   participant2Id r = Some (authenticatedUserId c)")
        case False
        with same Some show ?thesis by (simp add: join_room_def kept)
      next
        case True
        show ?thesis
        proof (cases "map_of (roomConnections s) roomId")
          case None
          with same Some True base show ?thesis
            by (simp add: join_room_def Let_def AList.update_conv' upd)
        next
          case (Some cl)
          with same \<open>getRoomById s roomId = Some r\<close> True base show ?thesis
            by (simp add: join_room_def Let_def upd)
        qed
      qed
    qed
  qed
qed

lemma handle_registry_ok:
  assumes "registry_ok s"
  shows "registry_ok (handle s q)"
proof (cases q)
  case (SocketMessage c msg)
  show ?thesis
  proof (cases msg)
    case (JoinRoom roomId uid name)
    with SocketMessage assms show ?thesis by (simp add: on_message_def join_room_registry_ok)
  next
    case (LeaveRoom roomId uid)
    with SocketMessage assms show ?thesis by (simp add: on_message_def leave_room_registry_ok)
  qed (use SocketMessage assms in \<open>simp_all add: on_message_def\<close>)
next
  case (SocketClosed c)
  have "registry_ok (s\<lparr>readyState := (readyState s)(conn_ws c := CLOSED)\<rparr>)"
    using assms by (simp add: registry_ok_def)
  with SocketClosed show ?thesis
    by (simp add: on_close_leave_room leave_room_registry_ok)
qed (use assms in \<open>simp_all add: registry_ok_def create_room_route_registry
    join_room_route_registry get_room_route_def post_message_route_registry get_messages_route_def
    transcribe_route_registry generate_route_registry vote_route_registry split: option.splits\<close>)

lemma trace_registry_ok:
  "registry_ok s \<Longrightarrow> \<forall>x \<in> set (trace s reqs). registry_ok x"
  by (rule trace_invariant) (simp_all add: handle_registry_ok)

subsection \<open>Runs of overlapping requests\<close>

lemma run_head: "c \<in> set (run c es)"
  by (cases es) simp_all

lemma run_invariant:
  assumes "I c" and "\<forall>x \<in> set (run c es). G (snd x)"
    and "\<And>x e. I x \<Longrightarrow> G (snd x) \<Longrightarrow> I (fire x e)"
  shows "\<forall>x \<in> set (run c es). I x"
  using assms(1,2)
proof (induction es arbitrary: c)
  case Nil
  then show ?case by simp
next
  case (Cons e es)
  from Cons.prems(2) have g: "G (snd c)" and rest: "\<forall>x \<in> set (run (fire c e) es). G (snd x)"
    by simp_all
  from Cons.prems(1) g have "I (fire c e)" by (rule assms(3))
  from Cons.IH [OF this rest] Cons.prems(1) show ?case by simp
qed

lemma set_update_pool:
  "k < length pool \<Longrightarrow> x \<in> set (pool[k := t]) \<Longrightarrow> x = t \<or> (\<exists>j. j < length pool \<and> j \<noteq> k \<and> x = pool ! j)"
  by (auto simp: in_set_conv_nth nth_list_update split: if_splits)

lemma set_remove_pool:
  "k < length pool \<Longrightarrow> x \<in> set (take k pool @ drop (Suc k) pool) \<Longrightarrow>
     \<exists>j. j < length pool \<and> j \<noteq> k \<and> x = pool ! j"
proof -
  assume k: "k < length pool" and x: "x \<in> set (take k pool @ drop (Suc k) pool)"
  from x consider "x \<in> set (take k pool)" | "x \<in> set (drop (Suc k) pool)" by auto
  then show ?thesis
  proof cases
    case 1
    then obtain j where "j < k" "j < length pool" "x = pool ! j"
      by (auto simp: in_set_conv_nth)
    then show ?thesis by auto
  next
    case 2
    then obtain j where "j < length pool - Suc k" "x = pool ! (Suc k + j)"
      by (auto simp: in_set_conv_nth)
    then show ?thesis by (intro exI [of _ "Suc k + j"]) auto
  qed
qed

lemma map_filter_Some_in:
  "x \<in> set xs \<Longrightarrow> f x = Some a \<Longrightarrow> a \<in> set (List.map_filter f xs)"
  by (force simp: List.map_filter_def)

lemma distinct_map_filter_nth:
  "distinct (List.map_filter f xs) \<Longrightarrow> j < length xs \<Longrightarrow> k < length xs \<Longrightarrow> j \<noteq> k \<Longrightarrow>
     f (xs ! j) = Some a \<Longrightarrow> f (xs ! k) \<noteq> Some a"
proof (induction xs arbitrary: j k)
  case Nil
  then show ?case by simp
next
  case (Cons x xs)
  have tl: "distinct (List.map_filter f xs)"
    using Cons.prems(1) by (cases "f x") (simp_all add: List.map_filter_simps)
  show ?case
  proof (cases j)
    case 0
    with Cons.prems obtain k' where k': "k = Suc k'" "k' < length xs" by (cases k) auto
    from 0 Cons.prems(5) have fx: "f x = Some a" by simp
    with Cons.prems(1) have "a \<notin> set (List.map_filter f xs)"
      by (simp add: List.map_filter_simps)
    with map_filter_Some_in [of "xs ! k'" xs f a] k' show ?thesis by auto
  next
    case (Suc j')
    show ?thesis
    proof (cases k)
      case 0
      show ?thesis
      proof
        assume "f ((x # xs) ! k) = Some a"
        with 0 have fx: "f x = Some a" by simp
        with Cons.prems(1) have "a \<notin> set (List.map_filter f xs)"
          by (simp add: List.map_filter_simps)
        moreover from Suc Cons.prems(2,5) have "xs ! j' \<in> set xs" "f (xs ! j') = Some a" by simp_all
        ultimately show False using map_filter_Some_in by fastforce
      qed
    next
      case (Suc k')
      with \<open>j = Suc j'\<close> Cons.prems Cons.IH [OF tl, of j' k'] show ?thesis by simp
    qed
  qed
qed

subsection \<open>The votes table under overlapping requests\<close>

lemma step_votes_other:
  assumes "inserting t = None"
  shows "votes (fst (step s t)) = votes s"
    and "snd (step s t) = Next t' \<Longrightarrow> unvoted s t'"
proof -
  show "votes (fst (step s t)) = votes s"
  proof (cases t)
    case (Arrived q)
    then show ?thesis
      by (cases q)
        (simp_all add: create_room_route_votes get_room_route_def post_message_route_votes
          get_messages_route_def transcribe_route_votes generate_route_votes on_message_votes
          on_close_votes split: option.splits)
  next
    case (Voting st now newId date uid roomId resId)
    with assms show ?thesis
      by (cases st) (simp_all add: inserting_def Let_def updateRoomStatus_def split: option.splits)
  next
    case (Joining st uid)
    then show ?thesis
      by (cases st)
        (auto simp: setParticipant1_def setParticipant2_def split: option.splits sum.splits)
  qed
  show "unvoted s t'" if "snd (step s t) = Next t'"
  proof (cases t)
    case (Arrived q)
    with that show ?thesis
      by (cases q) (auto simp: unvoted_def inserting_def split: option.splits if_splits)
  next
    case (Voting st now newId date uid roomId resId)
    with assms that show ?thesis
      by (cases st)
        (auto simp: unvoted_def inserting_def Let_def split: option.splits if_splits sum.splits
          dest: getUserVote_None)
  next
    case (Joining st uid)
    with that show ?thesis
      by (cases st) (auto simp: unvoted_def inserting_def split: option.splits if_splits sum.splits)
  qed
qed

lemma step_votes_insert:
  assumes "inserting t = Some k"
  shows "(step s t = (s, Done (Some 500))) \<or>
         (\<exists>v t'. votes (fst (step s t)) = votes s @ [v] \<and> (vote_roomId v, userId v) = k \<and>
                 snd (step s t) = Next t' \<and> inserting t' = None)"
proof -
  from assms obtain now newId date uid roomId resId where
    t: "t = Voting VoteInsert now newId date uid roomId resId" and k: "k = (roomId, uid)"
    by (auto simp: inserting_def split: task.splits vote_stage.splits)
  show ?thesis
  proof (cases "createVote s now newId roomId resId uid")
    case (Inl e)
    with t show ?thesis by simp
  next
    case (Inr p)
    obtain s1 v where p: "p = (s1, v)" by (cases p)
    note c = createVote_Inr [OF Inr [unfolded p]]
    from c(1,2) have "votes s1 = votes s @ [v]" "(vote_roomId v, userId v) = (roomId, uid)"
      by simp_all
    with t k Inr p show ?thesis by (simp add: inserting_def)
  qed
qed

lemma step_votes:
  "\<exists>vs. votes (fst (step s t)) = votes s @ vs"
proof (cases "inserting t")
  case None
  then show ?thesis by (simp add: step_votes_other(1))
next
  case (Some k)
  from step_votes_insert [OF this, of s] show ?thesis by auto
qed

lemma fire_votes: "\<exists>vs. votes (fst (fire c e)) = votes (fst c) @ vs"
proof (cases c)
  case (Pair s pool)
  show ?thesis
  proof (cases e)
    case (Request q)
    with Pair show ?thesis by simp
  next
    case (Resume k)
    from step_votes [of s "pool ! k"] obtain vs
      where "votes (fst (step s (pool ! k))) = votes s @ vs" by blast
    with Pair Resume show ?thesis
      by (cases "step s (pool ! k)"; cases "snd (step s (pool ! k))") auto
  qed
qed

lemma run_votes:
  "\<forall>x \<in> set (run c es). \<exists>vs. votes (fst x) = votes (fst c) @ vs"
proof (induction es arbitrary: c)
  case Nil
  then show ?case by simp
next
  case (Cons e es)
  from fire_votes [of c e] obtain ws where ws: "votes (fst (fire c e)) = votes (fst c) @ ws"
    by blast
  have "\<exists>vs. votes (fst x) = votes (fst c) @ vs" if "x \<in> set (run (fire c e) es)" for x
  proof -
    from Cons.IH that obtain vs where "votes (fst x) = votes (fst (fire c e)) @ vs" by blast
    with ws show ?thesis by simp
  qed
  then show ?case by simp
qed

lemma unvoted_same: "votes s' = votes s \<Longrightarrow> unvoted s' t = unvoted s t"
  by (simp add: unvoted_def split: option.splits)

lemma fire_one_vote_each:
  assumes inv: "one_vote_each (fst c) \<and> (\<forall>t \<in> set (snd c). unvoted (fst c) t)"
    and excl: "one_insert_each (snd c)"
  shows "one_vote_each (fst (fire c e)) \<and> (\<forall>t \<in> set (snd (fire c e)). unvoted (fst (fire c e)) t)"
proof (cases c)
  case (Pair s pool)
  with inv have ok: "one_vote_each s" and un: "\<And>t. t \<in> set pool \<Longrightarrow> unvoted s t" by simp_all
  show ?thesis
  proof (cases e)
    case (Request q)
    have "unvoted s (Arrived q)" by (simp add: unvoted_def inserting_def)
    with Pair Request ok un show ?thesis by auto
  next
    case (Resume k)
    show ?thesis
    proof (cases "k < length pool")
      case False
      with Pair Resume ok un show ?thesis by simp
    next
      case k: True
      let ?t = "pool ! k"
      obtain s1 p where st: "step s ?t = (s1, p)" by (cases "step s ?t")
      have new_pool: "snd (fire c e) = (case p of Next t' \<Rightarrow> pool[k := t']
                                         | Done a \<Rightarrow> take k pool @ drop (Suc k) pool)"
        and new_state: "fst (fire c e) = s1"
        using Pair Resume k st by (simp_all split: progress.splits)
      have old: "\<exists>j. j < length pool \<and> j \<noteq> k \<and> x = pool ! j"
        if x: "x \<in> set (snd (fire c e))" and nx: "\<forall>t'. p = Next t' \<longrightarrow> x \<noteq> t'" for x
      proof (cases p)
        case (Next t')
        with x new_pool have "x \<in> set (pool[k := t'])" by simp
        from set_update_pool [OF k this] nx Next show ?thesis by simp
      next
        case (Done a)
        with x new_pool have "x \<in> set (take k pool @ drop (Suc k) pool)" by simp
        from set_remove_pool [OF k this] show ?thesis .
      qed
      show ?thesis
      proof (cases "inserting ?t")
        case None
        from step_votes_other [OF None, of s] st
        have v: "votes s1 = votes s" and nx: "\<And>t'. p = Next t' \<Longrightarrow> unvoted s t'"
          by simp_all
        have "unvoted s1 x" if "x \<in> set (snd (fire c e))" for x
        proof (cases "\<exists>t'. p = Next t' \<and> x = t'")
          case True
          with nx show ?thesis by (auto simp: unvoted_same [OF v])
        next
          case False
          with old [OF that] obtain j where "j < length pool" "x = pool ! j" by blast
          with un show ?thesis by (simp add: unvoted_same [OF v])
        qed
        moreover from v ok have "one_vote_each s1" by (simp add: one_vote_each_def)
        ultimately show ?thesis unfolding new_state by simp
      next
        case (Some key)
        from step_votes_insert [OF Some, of s] st
        consider (failed) "s1 = s" "p = Done (Some 500)"
          | (inserted) v t' where "votes s1 = votes s @ [v]" "(vote_roomId v, userId v) = key"
              "p = Next t'" "inserting t' = None"
          by auto
        then show ?thesis
        proof cases
          case failed
          have "unvoted s x" if "x \<in> set (snd (fire c e))" for x
          proof -
            from failed(2) old [OF that] obtain j where "j < length pool" "x = pool ! j" by auto
            with un show ?thesis by simp
          qed
          with failed ok show ?thesis unfolding new_state by simp
        next
          case inserted
          from un [of ?t] k Some have fresh: "key \<notin> set (map (\<lambda>v. (vote_roomId v, userId v)) (votes s))"
            by (simp add: unvoted_def)
          with ok inserted(1,2) have ok1: "one_vote_each s1"
            by (auto simp: one_vote_each_def)
          have "unvoted s1 x" if "x \<in> set (snd (fire c e))" for x
          proof (cases "x = t'")
            case True
            with inserted(4) show ?thesis by (simp add: unvoted_def)
          next
            case False
            with inserted(3) old [OF that] obtain j where
              j: "j < length pool" "j \<noteq> k" "x = pool ! j" by auto
            show ?thesis
            proof (cases "inserting x")
              case None
              then show ?thesis by (simp add: unvoted_def)
            next
              case (Some key')
              from excl Pair have "distinct (List.map_filter inserting pool)"
                by (simp add: one_insert_each_def)
              from distinct_map_filter_nth [OF this j(1) k j(2)] Some j(3) \<open>inserting ?t = Some key\<close>
              have "key' \<noteq> key" by auto
              moreover from un [of x] j Some
              have "key' \<notin> set (map (\<lambda>v. (vote_roomId v, userId v)) (votes s))"
                by (simp add: unvoted_def)
              ultimately show ?thesis using Some inserted(1,2) by (auto simp: unvoted_def)
            qed
          qed
          with ok1 show ?thesis unfolding new_state by simp
        qed
      qed
    qed
  qed
qed

lemma run_one_vote_each:
  assumes "one_vote_each s" and "\<forall>x \<in> set (run (s, []) es). one_insert_each (snd x)"
  shows "\<forall>x \<in> set (run (s, []) es). one_vote_each (fst x)"
proof -
  let ?I = "\<lambda>x. one_vote_each (fst x) \<and> (\<forall>t \<in> set (snd x). unvoted (fst x) t)"
  have "?I (s, [])" using assms(1) by simp
  from run_invariant [of ?I, OF this assms(2)] fire_one_vote_each
  have "\<forall>x \<in> set (run (s, []) es). ?I x" by blast
  then show ?thesis by blast
qed

subsection \<open>The slots under overlapping requests\<close>













subsection \<open>A handler that runs without another in between\<close>

lemma last_run: "last (run c es) = foldl fire c es"
proof (induction es arbitrary: c)
  case Nil
  then show ?case by simp
next
  case (Cons e es)
  have "run (fire c e) es \<noteq> []" using run_head [of "fire c e" es] by auto
  with Cons show ?case by simp
qed

lemma fire_single:
  "fire (s, [t]) (Resume 0) =
     (case step s t of (s1, Next t') \<Rightarrow> (s1, [t']) | (s1, Done a) \<Rightarrow> (s1, []))"
  by (simp split: prod.splits progress.splits)

lemma fire_idle: "foldl fire (s, []) (replicate n (Resume 0)) = (s, [])"
  by (induction n) simp_all

lemma six_resumes:
  "replicate 6 (Resume 0) = [Resume 0, Resume 0, Resume 0, Resume 0, Resume 0, Resume 0]"
  by (simp add: eval_nat_numeral)

lemma fire_done:
  "step s t = (s1, Done a) \<Longrightarrow> foldl fire (s, [t]) (Resume 0 # es) = foldl fire (s1, []) es"
  by simp

lemma fire_next:
  "step s t = (s1, Next t') \<Longrightarrow> foldl fire (s, [t]) (Resume 0 # es) = foldl fire (s1, [t']) es"
  by simp

lemma idle_list:
  "set es \<subseteq> {Resume 0} \<Longrightarrow> foldl fire (s, []) es = (s, [])"
  by (induction es) auto

lemma uninterrupted_vote:
  "foldl fire (s, [Arrived (Vote now newId date uid roomId resId)]) (replicate 6 (Resume 0))
     = (fst (vote_route s now newId date uid roomId resId), [])"
proof (cases "ensureRoomMember s roomId uid")
  case False
  then show ?thesis
    unfolding six_resumes by (simp add: vote_route_denied)
next
  case mem: True
  show ?thesis
  proof (cases "getUserVote s roomId uid")
    case (Some x)
    with mem show ?thesis
      unfolding six_resumes by (simp add: vote_route_voted)
  next
    case None
    show ?thesis
    proof (cases "createVote s now newId roomId resId uid")
      case (Inl e)
      with mem None show ?thesis
        unfolding six_resumes by (simp add: vote_route_failed)
    next
      case (Inr p)
      obtain s1 v where p: "p = (s1, v)" by (cases p)
      let ?s2 = "broadcastToRoom s1 roomId (VoteCast uid resId) None"
      have v2: "getRoomVotes ?s2 roomId = getRoomVotes s1 roomId" by (simp add: getRoomVotes_def)
      have a: "foldl fire (s, [Arrived (Vote now newId date uid roomId resId)])
                 (replicate 6 (Resume 0))
               = foldl fire (?s2, [Voting (VoteCount v) now newId date uid roomId resId])
                   [Resume 0, Resume 0, Resume 0]"
        unfolding six_resumes using mem None Inr p by simp
      show ?thesis
      proof (cases "agreed (getRoomVotes s1 roomId)")
        case True
        then have "foldl fire (?s2, [Voting (VoteCount v) now newId date uid roomId resId])
                   [Resume 0, Resume 0, Resume 0]
            = (broadcastToRoom (updateRoomStatus ?s2 roomId ''resolved'' (Some date)) roomId
                 (RoomResolved (getResolutionById
                    (updateRoomStatus ?s2 roomId ''resolved'' (Some date)) resId)) None, [])"
          by (simp add: v2 agreed_def Let_def)
        with a True show ?thesis
          by (simp add: vote_route_success [OF mem None Inr [unfolded p]] Let_def)
      next
        case False
        then have "foldl fire (?s2, [Voting (VoteCount v) now newId date uid roomId resId])
                   [Resume 0, Resume 0, Resume 0] = (?s2, [])"
          by (auto simp: v2 agreed_def Let_def)
        with a False show ?thesis
          by (simp add: vote_route_success [OF mem None Inr [unfolded p]] Let_def)
      qed
    qed
  qed
qed

lemma uninterrupted_join:
  "foldl fire (s, [Arrived (JoinByCode uid c)]) (replicate 6 (Resume 0))
     = (fst (join_room_route s uid c), [])"
proof (cases "getRoomByCode s c")
  case None
  then show ?thesis unfolding six_resumes by (simp add: join_room_route_def)
next
  case (Some room)
  show ?thesis
  proof (cases "getRoomById s (room_id room)")
    case None
    with Some show ?thesis
      unfolding six_resumes by (simp add: join_room_route_def updateRoomParticipant_def)
  next
    case r: (Some r)
    note ex = getRoomById_room_exists [OF r]
    consider (one) "falsy (participant1Id r)"
      | (two) "\<not> falsy (participant1Id r)" "falsy (participant2Id r) \<and> participant1Id r \<noteq> Some uid"
      | (none) "\<not> falsy (participant1Id r)" "\<not> (falsy (participant2Id r) \<and> participant1Id r \<noteq> Some uid)"
      by blast
    then show ?thesis
    proof cases
      case one
      with Some r ex show ?thesis
        unfolding six_resumes
        by (cases "user_exists s uid")
          (simp_all add: join_room_route_def updateRoomParticipant_def setParticipant1_def)
    next
      case two
      with Some r ex show ?thesis
        unfolding six_resumes
        by (cases "user_exists s uid")
          (simp_all add: join_room_route_def updateRoomParticipant_def setParticipant2_def)
    next
      case none
      with Some r show ?thesis
        unfolding six_resumes
        by (auto simp: join_room_route_def updateRoomParticipant_def)
    qed
  qed
qed

lemma uninterrupted:
  "last (run (s, []) (Request q # replicate 6 (Resume 0))) = (handle s q, [])"
proof -
  have "foldl fire (s, [Arrived q]) (replicate 6 (Resume 0)) = (handle s q, [])"
  proof (cases q)
    case (Vote now newId date uid roomId resId)
    then show ?thesis by (simp add: uninterrupted_vote)
  next
    case (JoinByCode uid c)
    then show ?thesis by (simp add: uninterrupted_join)
  qed (simp_all add: six_resumes)
  then show ?thesis unfolding last_run by simp
qed

subsection \<open>Two overlapping votes, two overlapping joins\<close>

lemma run_overlapping_votes:
  "votes (fst (last (run (demo_state [], []) overlapping_votes)))
     = [demo_vote ''v1'' ''u1'' ''x1'' 10, demo_vote ''v2'' ''u1'' ''x1'' 20]"
  "map status (rooms (fst (last (run (demo_state [], []) overlapping_votes)))) = [''resolved'']"
  unfolding last_run overlapping_votes_def
  by (simp_all add: ensureRoomMember_def getRoomById_def getUserVote_def createVote_def
      room_exists_def resolution_exists_def user_exists_def broadcastToRoom_def deliveries_def
      getRoomVotes_def updateRoomStatus_def update_rooms_def
      demo_state_def demo_room_def demo_resolutions_def demo_users_def demo_vote_def Let_def)

lemma step_already_voted:
  "getUserVote s roomId uid \<noteq> None \<Longrightarrow>
     step s (Voting VoteLookup now newId date uid roomId resId) = (s, Done (Some 400))"
  by (auto split: option.splits)

text \<open>
  C3 (as amended). A member who already has a vote in the room gets \<^verbatim>\<open>400 Already voted\<close>
  and the state is returned as it was: no vote written, nothing sent. So does a vote handler,
  among overlapping requests, at the step where it looks for a vote of its caller and finds
  one. Whatever requests arrive and however the steps of their handlers alternate, the
  votes table only grows at its end: no vote is ever overwritten or removed. If the table
  has at most one vote for each room and identity, and at no time two handlers are both
  about to insert a vote for the same room and identity, it stays so.
\<close>

theorem vote_route_already_voted:
  "(ensureRoomMember s roomId uid \<and> getUserVote s roomId uid \<noteq> None \<longrightarrow>
      vote_route s now newId date uid roomId resId = (s, Status 400 ''Already voted''))
   \<and> (getUserVote s roomId uid \<noteq> None \<longrightarrow>
        step s (Voting VoteLookup now newId date uid roomId resId) = (s, Done (Some 400)))
   \<and> (\<exists>vs. votes (fst (vote_route s now newId date uid roomId resId)) = votes s @ vs)
   \<and> (\<forall>x \<in> set (run (s, pool) evs). \<exists>vs. votes (fst x) = votes s @ vs)
   \<and> (one_vote_each s \<and> (\<forall>x \<in> set (run (s, []) evs). one_insert_each (snd x)) \<longrightarrow>
        (\<forall>x \<in> set (run (s, []) evs). one_vote_each (fst x)))"
proof (intro conjI impI)
  assume "ensureRoomMember s roomId uid \<and> getUserVote s roomId uid \<noteq> None"
  then show "vote_route s now newId date uid roomId resId = (s, Status 400 ''Already voted'')"
    by (auto simp: vote_route_voted)
next
  assume "getUserVote s roomId uid \<noteq> None"
  then show "step s (Voting VoteLookup now newId date uid roomId resId) = (s, Done (Some 400))"
    by (rule step_already_voted)
next
  show "\<exists>vs. votes (fst (vote_route s now newId date uid roomId resId)) = votes s @ vs"
    using vote_route_votes [of s now newId date uid roomId resId] by auto
next
  show "\<forall>x \<in> set (run (s, pool) evs). \<exists>vs. votes (fst x) = votes s @ vs"
    using run_votes [of "(s, pool)" evs] by simp
next
  assume "one_vote_each s \<and> (\<forall>x \<in> set (run (s, []) evs). one_insert_each (snd x))"
  then show "\<forall>x \<in> set (run (s, []) evs). one_vote_each (fst x)"
    using run_one_vote_each [of s evs] by blast
qed

text \<open>
  The claim as stated fails: \<open>u1\<close> sends two votes, and both handlers look for a vote of
  \<open>u1\<close> before either has inserted one. Both votes are recorded, neither request is
  refused, and the two votes of the one identity set the room to \<open>resolved\<close>.
\<close>

theorem overlapping_votes_counterexample:
  "one_vote_each (demo_state [])
   \<and> votes (fst (last (run (demo_state [], []) overlapping_votes)))
       = [demo_vote ''v1'' ''u1'' ''x1'' 10, demo_vote ''v2'' ''u1'' ''x1'' 20]
   \<and> \<not> one_vote_each (fst (last (run (demo_state [], []) overlapping_votes)))
   \<and> map status (rooms (fst (last (run (demo_state [], []) overlapping_votes)))) = [''resolved'']"
proof -
  have "one_vote_each (demo_state [])" by (simp add: one_vote_each_def demo_state_def)
  moreover have "\<not> one_vote_each (fst (last (run (demo_state [], []) overlapping_votes)))"
    by (simp add: one_vote_each_def run_overlapping_votes demo_vote_def)
  ultimately show ?thesis using run_overlapping_votes by simp
qed

lemma run_successive_votes:
  "list_all (\<lambda>x. one_insert_each (snd x)) (run (demo_state [], []) successive_votes)"
  "votes (fst (last (run (demo_state [], []) successive_votes)))
     = [demo_vote ''v1'' ''u1'' ''x1'' 10]"
  unfolding last_run successive_votes_def
  by (simp_all add: ensureRoomMember_def getRoomById_def getUserVote_def createVote_def
      room_exists_def resolution_exists_def user_exists_def broadcastToRoom_def deliveries_def
      getRoomVotes_def one_insert_each_def inserting_def List.map_filter_simps
      demo_state_def demo_room_def demo_resolutions_def demo_users_def demo_vote_def Let_def)

theorem vote_route_already_voted_witness:
  "ensureRoomMember (demo_state [demo_vote ''v1'' ''u1'' ''x2'' 10]) ''r1'' ''u1''
   \<and> getUserVote (demo_state [demo_vote ''v1'' ''u1'' ''x2'' 10]) ''r1'' ''u1'' \<noteq> None
   \<and> vote_route (demo_state [demo_vote ''v1'' ''u1'' ''x2'' 10]) 20 ''v2'' 21 ''u1'' ''r1'' ''x1''
       = (demo_state [demo_vote ''v1'' ''u1'' ''x2'' 10], Status 400 ''Already voted'')
   \<and> step (demo_state [demo_vote ''v1'' ''u1'' ''x2'' 10])
        (Voting VoteLookup 20 ''v2'' 21 ''u1'' ''r1'' ''x1'')
       = (demo_state [demo_vote ''v1'' ''u1'' ''x2'' 10], Done (Some 400))
   \<and> one_vote_each (demo_state [])
   \<and> list_all (\<lambda>x. one_insert_each (snd x)) (run (demo_state [], []) successive_votes)
   \<and> one_vote_each (fst (last (run (demo_state [], []) successive_votes)))
   \<and> votes (fst (last (run (demo_state [], []) successive_votes)))
       = [demo_vote ''v1'' ''u1'' ''x1'' 10]"
proof -
  let ?s = "demo_state [demo_vote ''v1'' ''u1'' ''x2'' 10]"
  have m: "ensureRoomMember ?s ''r1'' ''u1''"
    by (simp add: ensureRoomMember_def getRoomById_def demo_state_def demo_room_def)
  have v: "getUserVote ?s ''r1'' ''u1'' \<noteq> None"
    by (simp add: getUserVote_def demo_state_def demo_vote_def)
  have o: "one_vote_each (demo_state [])"
    by (simp add: one_vote_each_def demo_state_def)
  note e = run_successive_votes
  from e(1) have ex: "\<forall>x \<in> set (run (demo_state [], []) successive_votes). one_insert_each (snd x)"
    by (simp add: list_all_iff)
  note t = vote_route_already_voted [where s = ?s and roomId = "''r1''" and uid = "''u1''"
      and now = 20 and newId = "''v2''" and date = 21 and resId = "''x1''"]
  note u = vote_route_already_voted [where s = "demo_state []" and evs = successive_votes]
  from t m v have a: "vote_route ?s 20 ''v2'' 21 ''u1'' ''r1'' ''x1''
       = (?s, Status 400 ''Already voted'')"
    by blast
  from t v have b: "step ?s (Voting VoteLookup 20 ''v2'' 21 ''u1'' ''r1'' ''x1'')
       = (?s, Done (Some 400))"
    by blast
  have "last (run (demo_state [], []) successive_votes)
      \<in> set (run (demo_state [], []) successive_votes)"
    using run_head [of "(demo_state [], [])" successive_votes] by (intro last_in_set) auto
  with u o ex have c: "one_vote_each (fst (last (run (demo_state [], []) successive_votes)))"
    by blast
  from m v a b o e(1) c e(2) show ?thesis by blast
qed






end
